theory Spec2Isabelle
  imports Main "HOL-Library.Sublist"
begin

section \<open>Go string operations\<close>

text \<open>
  Strings are byte lists, as Go's are. The operations of package \<^verbatim>\<open>strings\<close> that the
  code calls, for the non-empty separators it passes (\<^verbatim>\<open>"."\<close> and \<^verbatim>\<open>"[]"\<close>).
\<close>

text \<open>\<^verbatim>\<open>strings.Contains(s, sub)\<close>.\<close>

fun contains :: "string \<Rightarrow> string \<Rightarrow> bool" where
  "contains [] sub = (sub = [])"
| "contains (c # cs) sub = (prefix sub (c # cs) \<or> contains cs sub)"

text \<open>
  \<^verbatim>\<open>strings.Split(s, sep)\<close>: the pieces between the non-overlapping occurrences of
  \<open>sep\<close>, found from the left; \<open>acc\<close> is the piece being read.
\<close>

function split_acc :: "string \<Rightarrow> string \<Rightarrow> string \<Rightarrow> string list" where
  "split_acc sep acc [] = [acc]"
| "split_acc sep acc (c # cs) =
     (if sep \<noteq> [] \<and> prefix sep (c # cs)
      then acc # split_acc sep [] (drop (length sep) (c # cs))
      else split_acc sep (acc @ [c]) cs)"
  by pat_completeness auto
termination
  by (relation "measure (\<lambda>(sep, acc, s). length s)") auto

definition split :: "string \<Rightarrow> string \<Rightarrow> string list" where
  "split s sep = split_acc sep [] s"

text \<open>\<^verbatim>\<open>strings.Join(parts, sep)\<close>.\<close>

fun join_strings :: "string list \<Rightarrow> string \<Rightarrow> string" where
  "join_strings [] sep = []"
| "join_strings [p] sep = p"
| "join_strings (p # q # ps) sep = p @ sep @ join_strings (q # ps) sep"

text \<open>\<^verbatim>\<open>strings.Replace(s, old, new, -1)\<close> for a non-empty \<open>old\<close>.\<close>

function replace_all :: "string \<Rightarrow> string \<Rightarrow> string \<Rightarrow> string" where
  "replace_all [] old new = []"
| "replace_all (c # cs) old new =
     (if old \<noteq> [] \<and> prefix old (c # cs)
      then new @ replace_all (drop (length old) (c # cs)) old new
      else c # replace_all cs old new)"
  by pat_completeness auto
termination
  by (relation "measure (\<lambda>(s, old, new). length s)") auto

text \<open>\<^verbatim>\<open>strings.LastIndex(s, ".")\<close>; \<open>None\<close> is Go's \<open>-1\<close>.\<close>

definition last_index_dot :: "string \<Rightarrow> nat option" where
  "last_index_dot s =
     (if CHR ''.'' \<in> set s
      then Some (length s - 1 - length (takeWhile (\<lambda>c. c \<noteq> CHR ''.'') (rev s)))
      else None)"


definition has_suffix :: "string \<Rightarrow> string \<Rightarrow> bool" where
  "has_suffix s p = suffix p s"


section \<open>Result values and ordered maps\<close>

text \<open>
  Cells coming from the database driver are scalars. A float64 is carried by the
  literal it was read from: no property below depends on floating-point arithmetic.
\<close>

datatype scalar = SNull | SInt int | SFloat string | SText string | SBool bool

text \<open>
  Go's \<^verbatim>\<open>interface{}\<close> values that occur in a tree: a scalar, an
  \<^verbatim>\<open>*orderedmap.OrderedMap\<close> or a \<^verbatim>\<open>[]interface{}\<close>.
  An ordered map is its list of entries in insertion order.
\<close>

datatype node = Leaf scalar | Obj "(string \<times> node) list" | Arr "node list"

type_synonym 'v om = "(string \<times> 'v) list"

type_synonym omap = "node om"

definition om_keys :: "'v om \<Rightarrow> string list" where
  "om_keys m = map fst m"

definition om_get :: "'v om \<Rightarrow> string \<Rightarrow> 'v option" where
  "om_get m k = map_of m k"

text \<open>\<^verbatim>\<open>Set\<close>: a new key is appended, an existing key keeps its position.\<close>

fun om_set :: "'v om \<Rightarrow> string \<Rightarrow> 'v \<Rightarrow> 'v om" where
  "om_set [] k v = [(k, v)]"
| "om_set ((k', v') # m) k v =
     (if k' = k then (k, v) # m else (k', v') # om_set m k v)"

datatype error =
    ShapeConflict string string
  | Panic string
  | Failure string

section \<open>removeHashes\<close>

text \<open>
  \<^verbatim>\<open>key[:1] == "!" && key[len(key)-1:] == "!"\<close>, for a key that is not empty
  (on the empty key the slice expression panics, see \<open>rh_loop\<close>).
\<close>

definition is_hash_key :: "string \<Rightarrow> bool" where
  "is_hash_key key = (take 1 key = ''!'' \<and> drop (length key - 1) key = ''!'')"

definition set_all :: "omap \<Rightarrow> omap \<Rightarrow> omap" where
  "set_all m kvs = foldl (\<lambda>acc (k, v). om_set acc k v) m kvs"

definition rh_finish :: "string \<Rightarrow> omap \<Rightarrow> omap \<Rightarrow> node list \<Rightarrow> error + node" where
  "rh_finish path values trees results =
     (if length results > 0 then
        (let hidden = om_keys values @ om_keys trees in
         if length hidden > 0 then Inl (ShapeConflict path (hd hidden))
         else Inr (Arr results))
      else Inr (Obj (set_all (set_all [] values) trees)))"

text \<open>
  \<open>rh_loop\<close> is the \<^verbatim>\<open>for _, key := range tree.Keys()\<close> loop, carrying
  \<^verbatim>\<open>values\<close>, \<^verbatim>\<open>trees\<close> and \<^verbatim>\<open>results\<close>; \<open>rh_finish\<close> is the code
  after the loop. The error \<open>ShapeConflict path key\<close> stands for the message
  formatted from \<^verbatim>\<open>path\<close> and \<^verbatim>\<open>hidden[0]\<close>.
\<close>

function removeHashes :: "omap \<Rightarrow> string \<Rightarrow> error + node"
  and rh_loop :: "omap \<Rightarrow> string \<Rightarrow> omap \<Rightarrow> omap \<Rightarrow> node list
                    \<Rightarrow> error + (omap \<times> omap \<times> node list)"
where
  "removeHashes tree path =
     (case rh_loop tree path [] [] [] of
        Inl err \<Rightarrow> Inl err
      | Inr (values, trees, results) \<Rightarrow> rh_finish path values trees results)"
| "rh_loop [] path values trees results = Inr (values, trees, results)"
| "rh_loop ((key, value) # rest) path values trees results =
     (case value of
        Obj valueMap \<Rightarrow>
          (if key = [] then Inl (Panic ''slice bounds out of range [:1] with length 0'')
           else if is_hash_key key then
             (case removeHashes valueMap (path @ ''[]'') of
                Inl err \<Rightarrow> Inl err
              | Inr result \<Rightarrow> rh_loop rest path values trees (results @ [result]))
           else
             (case removeHashes valueMap (path @ ''.'' @ key) of
                Inl err \<Rightarrow> Inl err
              | Inr result \<Rightarrow> rh_loop rest path values (om_set trees key result) results))
      | _ \<Rightarrow> rh_loop rest path (om_set values key value) trees results)"
  by pat_completeness auto
termination
  by (relation "measure (\<lambda>x. case x of
        Inl (tree, _) \<Rightarrow> Suc (size_list (size_prod (\<lambda>_. 0) size) tree)
      | Inr (tree, _) \<Rightarrow> size_list (size_prod (\<lambda>_. 0) size) tree)") auto


text \<open>
  A child is fingerprint-tagged when its value is a map and its key begins and ends
  with \<open>!\<close>; \<open>child_path\<close> is the path the recursive call receives.
\<close>

definition tagged :: "string \<times> node \<Rightarrow> bool" where
  "tagged kv = (case snd kv of Obj _ \<Rightarrow> is_hash_key (fst kv) | _ \<Rightarrow> False)"

definition child_path :: "string \<Rightarrow> string \<Rightarrow> string" where
  "child_path path k = (if is_hash_key k then path @ ''[]'' else path @ ''.'' @ k)"

text \<open>
  The shape conflicts of a tree: every node that has a tagged child, paired with each of
  its children that is not tagged (a scalar leaf or a plain nested child), children
  before their parent as the resolver visits them.
\<close>

fun conflicts :: "omap \<Rightarrow> string \<Rightarrow> (string \<times> string) list" where
  "conflicts tree path =
     concat (map (\<lambda>(k, v). case v of Obj m \<Rightarrow> conflicts m (child_path path k) | _ \<Rightarrow> []) tree)
     @ (if list_ex tagged tree
        then map (\<lambda>kv. (path, fst kv)) (filter (\<lambda>kv. \<not> tagged kv) tree) else [])"

text \<open>No nested map sits under the empty key, anywhere in the tree.\<close>

fun no_empty_map_key :: "omap \<Rightarrow> bool" where
  "no_empty_map_key tree =
     (\<forall>(k, v) \<in> set tree. case v of Obj m \<Rightarrow> k \<noteq> [] \<and> no_empty_map_key m | _ \<Rightarrow> True)"

definition sub_conflicts :: "omap \<Rightarrow> string \<Rightarrow> (string \<times> string) list" where
  "sub_conflicts tree path =
     concat (map (\<lambda>(k, v). case v of Obj m \<Rightarrow> conflicts m (child_path path k) | _ \<Rightarrow> []) tree)"

fun entries :: "node \<Rightarrow> omap" where
  "entries (Obj m) = m"
| "entries _ = []"

definition items :: "node \<Rightarrow> node list" where
  "items n = (case n of Arr xs \<Rightarrow> xs | _ \<Rightarrow> [])"

text \<open>
  What resolving does to a tree without tagged children. The loop puts every child
  whose value is not a map under \<^verbatim>\<open>values\<close>: a scalar leaf, and also a sequence,
  which is kept as it is and not entered. So at every node reached through maps the
  children that are not maps come first and the nested maps last, each group in its own
  order.
\<close>

definition is_obj :: "node \<Rightarrow> bool" where
  "is_obj n = (case n of Obj _ \<Rightarrow> True | _ \<Rightarrow> False)"

fun maps_last :: "omap \<Rightarrow> omap" where
  "maps_last kvs =
     filter (\<lambda>kv. \<not> is_obj (snd kv)) kvs
     @ map (\<lambda>(k, v). case v of Obj m \<Rightarrow> (k, Obj (maps_last m)) | _ \<Rightarrow> (k, v))
         (filter (\<lambda>kv. is_obj (snd kv)) kvs)"

text \<open>
  A tree as an ordered map holds it (keys distinct at every node), in which no nested
  map sits under a fingerprint token or under the empty key.
\<close>

fun plain_tree :: "omap \<Rightarrow> bool" where
  "plain_tree tree =
     (distinct (map fst tree) \<and>
      (\<forall>(k, v) \<in> set tree. case v of
          Obj m \<Rightarrow> k \<noteq> [] \<and> \<not> is_hash_key k \<and> plain_tree m
        | _ \<Rightarrow> True))"

text \<open>
  At every node reached through maps the nested maps already come last: no child that
  is not a map, scalar leaf or sequence, follows a nested map.
\<close>

fun maps_are_last :: "omap \<Rightarrow> bool" where
  "maps_are_last tree =
     (tree = filter (\<lambda>kv. \<not> is_obj (snd kv)) tree @ filter (\<lambda>kv. is_obj (snd kv)) tree \<and>
      (\<forall>(k, v) \<in> set tree. case v of Obj m \<Rightarrow> maps_are_last m | _ \<Rightarrow> True))"


definition relabel :: "string \<times> node \<Rightarrow> string \<times> node" where
  "relabel kv = (case kv of (k, v) \<Rightarrow> case v of Obj m \<Rightarrow> (k, Obj (maps_last m)) | _ \<Rightarrow> (k, v))"


text \<open>
  The words of the idempotence property: no key contains the marker \<^verbatim>\<open>[]\<close> and no
  key is a fingerprint token, anywhere in the tree.
\<close>

fun marker_free :: "omap \<Rightarrow> bool" where
  "marker_free tree =
     list_all (\<lambda>(k, v). \<not> contains k ''[]'' \<and> \<not> is_hash_key k \<and>
                 (case v of Obj m \<Rightarrow> marker_free m | _ \<Rightarrow> True)) tree"

text \<open>
  A post with an author and one comment: as merged, with the comment under a fingerprint
  token; as the resolver returns it, the comments now a sequence; and as the resolver
  returns that.
\<close>

definition post_merged :: omap where
  "post_merged =
     [(''x'', Leaf (SInt 1)),
      (''author'', Obj [(''name'', Leaf (SText ''ann''))]),
      (''comments'', Obj [(''!c1!'', Obj [(''id'', Leaf (SInt 7))])])]"

definition post_resolved :: omap where
  "post_resolved =
     [(''x'', Leaf (SInt 1)),
      (''author'', Obj [(''name'', Leaf (SText ''ann''))]),
      (''comments'', Arr [Obj [(''id'', Leaf (SInt 7))]])]"

definition post_resolved_again :: omap where
  "post_resolved_again =
     [(''x'', Leaf (SInt 1)),
      (''comments'', Arr [Obj [(''id'', Leaf (SInt 7))]]),
      (''author'', Obj [(''name'', Leaf (SText ''ann''))])]"


section \<open>Path assignment: getPaths\<close>

text \<open>
  The loop of \<^verbatim>\<open>getPaths\<close> carries \<^verbatim>\<open>path\<close>, which starts as \<^verbatim>\<open>"$[]"\<close>.
  \<open>column_path\<close> is one iteration: the prefix in force after the column, and the
  property name.
\<close>

definition column_path :: "string \<Rightarrow> string \<Rightarrow> string \<times> string" where
  "column_path path column =
     (if take 1 column = ''$'' then
        (case last_index_dot column of
           Some pos \<Rightarrow> (take pos column, drop (pos + 1) column)
         | None \<Rightarrow> (path, column))
      else (path, column))"

fun getPaths_loop :: "string \<Rightarrow> string list \<Rightarrow> string list" where
  "getPaths_loop path [] = []"
| "getPaths_loop path (column # columns) =
     (case column_path path column of
        (path', prop) \<Rightarrow> (path' @ ''.'' @ prop) # getPaths_loop path' columns)"

text \<open>
  The current \<^verbatim>\<open>getPaths\<close> tests \<^verbatim>\<open>len(column) > 0\<close> before it slices
  \<^verbatim>\<open>column[0:1]\<close>; its error result is always nil.
\<close>

definition getPaths :: "string list \<Rightarrow> error + string list" where
  "getPaths columns = Inr (getPaths_loop ''$[]'' columns)"

text \<open>
  The earlier \<^verbatim>\<open>getPaths\<close> of pathsqlx.go slices \<^verbatim>\<open>column[0:1]\<close> unguarded, which
  panics on an empty column name.
\<close>

fun getPaths_v1_loop :: "string \<Rightarrow> string list \<Rightarrow> error + string list" where
  "getPaths_v1_loop path [] = Inr []"
| "getPaths_v1_loop path (column # columns) =
     (if column = [] then Inl (Panic ''slice bounds out of range [:1] with length 0'')
      else
        (case column_path path column of
           (path', prop) \<Rightarrow>
             (case getPaths_v1_loop path' columns of
                Inl err \<Rightarrow> Inl err
              | Inr paths \<Rightarrow> Inr ((path' @ ''.'' @ prop) # paths))))"

definition getPaths_v1 :: "string list \<Rightarrow> error + string list" where
  "getPaths_v1 columns = getPaths_v1_loop ''$[]'' columns"

text \<open>
  The rule in words: a column that starts with \<^verbatim>\<open>$\<close> and contains a dot sets the
  prefix to what stands before its last dot and is named by what stands after it; any
  other column keeps its name and takes the prefix in force, which is that of the most
  recent such column at or before it, or the start value.
\<close>

definition dollar_dotted :: "string \<Rightarrow> bool" where
  "dollar_dotted c = (take 1 c = ''$'' \<and> CHR ''.'' \<in> set c)"

definition before_last_dot :: "string \<Rightarrow> string" where
  "before_last_dot c = rev (drop 1 (dropWhile (\<lambda>x. x \<noteq> CHR ''.'') (rev c)))"

definition after_last_dot :: "string \<Rightarrow> string" where
  "after_last_dot c = rev (takeWhile (\<lambda>x. x \<noteq> CHR ''.'') (rev c))"

definition prefix_in_force :: "string \<Rightarrow> string list \<Rightarrow> nat \<Rightarrow> string" where
  "prefix_in_force start columns i =
     (case filter dollar_dotted (take (Suc i) columns) of
        [] \<Rightarrow> start
      | ds \<Rightarrow> before_last_dot (last ds))"

definition property_name :: "string \<Rightarrow> string" where
  "property_name c = (if dollar_dotted c then after_last_dot c else c)"

definition spec_paths :: "string list \<Rightarrow> string list" where
  "spec_paths columns =
     map (\<lambda>i. prefix_in_force ''$[]'' columns i @ ''.'' @ property_name (columns ! i))
       [0..<length columns]"

section \<open>Record collection: getAllRecords\<close>



section \<open>Tree reconstruction\<close>

subsection \<open>groupBySeparator\<close>

text \<open>
  One record: every key is split at the separator; the last part is the new name, the
  parts before it (joined again, with a closing separator when there are any) are the
  segment the value is filed under.
\<close>

definition group_key :: "string \<Rightarrow> string \<Rightarrow> string \<times> string" where
  "group_key name separator =
     (let parts = split name separator;
          newName = last parts;
          path = join_strings (butlast parts) separator
      in (if length parts - 1 > 0 then path @ separator else path, newName))"

fun group_record :: "scalar om \<Rightarrow> string \<Rightarrow> scalar om om \<Rightarrow> scalar om om" where
  "group_record [] separator result = result"
| "group_record ((name, value) # rest) separator result =
     (case group_key name separator of
        (path, newName) \<Rightarrow>
          (let subResultMap = (case om_get result path of None \<Rightarrow> [] | Some m \<Rightarrow> m)
           in group_record rest separator
                (om_set result path (om_set subResultMap newName value))))"

definition groupBySeparator :: "scalar om list \<Rightarrow> string \<Rightarrow> scalar om om list" where
  "groupBySeparator records separator =
     map (\<lambda>record. group_record record separator []) records"

subsection \<open>addHashes\<close>

text \<open>
  Two things of \<^verbatim>\<open>addHashes\<close> come from outside the repository and are parameters.
  \<open>fp\<close> is the fingerprint of a segment: \<^verbatim>\<open>json.Marshal\<close>, then \<^verbatim>\<open>md5.Sum\<close>,
  then \<^verbatim>\<open>hex.EncodeToString\<close>; it is \<open>None\<close> when \<^verbatim>\<open>json.Marshal\<close> fails.
  \<open>ko\<close> is the order in which the keys of the Go map \<^verbatim>\<open>mapping\<close> reach the
  replacement loop: \<^verbatim>\<open>for key := range mapping\<close> yields them in an order the
  language leaves open, and \<^verbatim>\<open>sort.Sort(ByRevLen(...))\<close> then orders them by
  descending length. \<open>key_order\<close> is what the language guarantees of \<open>ko\<close>.
\<close>

definition key_order :: "(string list \<Rightarrow> string list) \<Rightarrow> bool" where
  "key_order ko =
     (\<forall>keys. set (ko keys) = set keys \<and> length (ko keys) = length keys
        \<and> sorted (rev (map length (ko keys))))"

fun hash_mapping :: "(scalar om \<Rightarrow> string option) \<Rightarrow> scalar om om \<Rightarrow> error + string om" where
  "hash_mapping fp [] = Inr []"
| "hash_mapping fp ((key, part) # rest) =
     (if int (length key) - 2 < 0 \<or> drop (length key - 2) key \<noteq> ''[]''
      then hash_mapping fp rest
      else
        (case fp part of
           None \<Rightarrow> Inl (Failure ''json: unsupported value'')
         | Some hash \<Rightarrow>
             (case hash_mapping fp rest of
                Inl err \<Rightarrow> Inl err
              | Inr mapping \<Rightarrow>
                  Inr ((key, take (length key - 2) key @ ''.!'' @ hash @ ''!'') # mapping))))"

definition rewrite_key :: "string om \<Rightarrow> string list \<Rightarrow> string \<Rightarrow> string" where
  "rewrite_key mapping mappingKeys key =
     foldl (\<lambda>key search.
              replace_all key search (case om_get mapping search of Some r \<Rightarrow> r | None \<Rightarrow> []))
           key mappingKeys"

definition hash_record ::
  "(scalar om \<Rightarrow> string option) \<Rightarrow> (string list \<Rightarrow> string list) \<Rightarrow> scalar om om
     \<Rightarrow> error + scalar om om" where
  "hash_record fp ko record =
     (case hash_mapping fp record of
        Inl err \<Rightarrow> Inl err
      | Inr mapping \<Rightarrow>
          (let mappingKeys = ko (om_keys mapping)
           in Inr (foldl (\<lambda>result (key, value).
                      om_set result (rewrite_key mapping mappingKeys key) value) [] record)))"

fun addHashes ::
  "(scalar om \<Rightarrow> string option) \<Rightarrow> (string list \<Rightarrow> string list) \<Rightarrow> scalar om om list
     \<Rightarrow> error + scalar om om list" where
  "addHashes fp ko [] = Inr []"
| "addHashes fp ko (record # records) =
     (case hash_record fp ko record of
        Inl err \<Rightarrow> Inl err
      | Inr result \<Rightarrow>
          (case addHashes fp ko records of
             Inl err \<Rightarrow> Inl err
           | Inr results \<Rightarrow> Inr (result # results)))"

subsection \<open>combineIntoTree\<close>

text \<open>
  \<open>insert_path\<close> is the walk \<^verbatim>\<open>for _, p := range path[:len(path)-1]\<close> followed by
  \<^verbatim>\<open>current.Set(newName, v)\<close>. A missing step is created; a step that holds something
  other than a map leaves \<^verbatim>\<open>current\<close> nil, and the next use of it panics.
\<close>

fun insert_path :: "omap \<Rightarrow> string list \<Rightarrow> string \<Rightarrow> scalar \<Rightarrow> error + omap" where
  "insert_path current [] newName v = Inr (om_set current newName (Leaf v))"
| "insert_path current (p # ps) newName v =
     (case (case om_get current p of
              None \<Rightarrow> Some []
            | Some (Obj nextMap) \<Rightarrow> Some nextMap
            | Some _ \<Rightarrow> None) of
        None \<Rightarrow> Inl (Panic ''nil pointer dereference'')
      | Some nextMap \<Rightarrow>
          (case insert_path nextMap ps newName v of
             Inl err \<Rightarrow> Inl err
           | Inr nextMap' \<Rightarrow> Inr (om_set current p (Obj nextMap'))))"

fun combine_segment :: "string \<Rightarrow> string \<Rightarrow> scalar om \<Rightarrow> omap \<Rightarrow> error + omap" where
  "combine_segment separator name [] results = Inr results"
| "combine_segment separator name ((key, v) # rest) results =
     (let path = split (name @ key) separator in
      case insert_path results (butlast path) (last path) v of
        Inl err \<Rightarrow> Inl err
      | Inr results' \<Rightarrow> combine_segment separator name rest results')"

fun combine_record :: "string \<Rightarrow> scalar om om \<Rightarrow> omap \<Rightarrow> error + omap" where
  "combine_record separator [] results = Inr results"
| "combine_record separator ((name, valueMap) # rest) results =
     (case combine_segment separator name valueMap results of
        Inl err \<Rightarrow> Inl err
      | Inr results' \<Rightarrow> combine_record separator rest results')"

fun combine_records :: "string \<Rightarrow> scalar om om list \<Rightarrow> omap \<Rightarrow> error + omap" where
  "combine_records separator [] results = Inr results"
| "combine_records separator (record # records) results =
     (case combine_record separator record results of
        Inl err \<Rightarrow> Inl err
      | Inr results' \<Rightarrow> combine_records separator records results')"

text \<open>The result is \<^verbatim>\<open>results.Get("")\<close> as a map, or nil (\<open>None\<close>).\<close>

definition combineIntoTree :: "scalar om om list \<Rightarrow> string \<Rightarrow> error + omap option" where
  "combineIntoTree records separator =
     (case combine_records separator records [] of
        Inl err \<Rightarrow> Inl err
      | Inr results \<Rightarrow>
          Inr (case om_get results [] of Some (Obj nextMap) \<Rightarrow> Some nextMap | _ \<Rightarrow> None))"

section \<open>PathQuery\<close>

text \<open>
  The four reconstruction steps in sequence, on the collected records; \<open>nil_tree\<close> says
  what happens when \<^verbatim>\<open>combineIntoTree\<close> returns nil.
\<close>

definition reconstruct ::
  "(scalar om \<Rightarrow> string option) \<Rightarrow> (string list \<Rightarrow> string list) \<Rightarrow> error
     \<Rightarrow> scalar om list \<Rightarrow> error + node" where
  "reconstruct fp ko nil_tree records =
     (case addHashes fp ko (groupBySeparator records ''[]'') of
        Inl err \<Rightarrow> Inl err
      | Inr hashes \<Rightarrow>
          (case combineIntoTree hashes ''.'' of
             Inl err \<Rightarrow> Inl err
           | Inr None \<Rightarrow> Inl nil_tree
           | Inr (Some tree) \<Rightarrow> removeHashes tree ''$''))"



section \<open>Vocabulary for flat results\<close>







section \<open>The result step of the current PathQuery\<close>






text \<open>
  \<^verbatim>\<open>PathQuery\<close> from the comment "Check if result should be an object" on. The
  full pipeline is \<open>reconstruct\<close>, here with an error for the nil tree.
\<close>

definition nil_tree :: error where
  "nil_tree = Failure ''combineIntoTree returned nil tree''"





section \<open>Instances of the external parts\<close>

text \<open>\<^verbatim>\<open>fmt.Sprintf("%d", i)\<close>: the decimal numeral of an integer.\<close>

fun digit_char :: "nat \<Rightarrow> char" where
  "digit_char n = char_of (48 + n)"

function show_nat :: "int \<Rightarrow> string" where
  "show_nat n =
     (if n < 10 then [digit_char (nat n)]
      else show_nat (n div 10) @ [digit_char (nat (n mod 10))])"
  by pat_completeness auto
termination
  by (relation "measure nat") auto

definition show_int :: "int \<Rightarrow> string" where
  "show_int i = (if i < 0 then CHR ''-'' # show_nat (- i) else show_nat i)"

text \<open>
  Go's \<^verbatim>\<open>sort.Sort\<close> is an insertion sort on slices of at most twelve elements: an
  element moves left past every neighbour that \<^verbatim>\<open>Less\<close> puts after it, here every
  strictly shorter key. \<open>insert_by_rev_len\<close> works on the sorted part read from its
  right end.
\<close>

fun insert_by_rev_len :: "string \<Rightarrow> string list \<Rightarrow> string list" where
  "insert_by_rev_len k [] = [k]"
| "insert_by_rev_len k (x # xs) =
     (if length k > length x then x # insert_by_rev_len k xs else k # x # xs)"

definition sort_by_rev_len :: "string list \<Rightarrow> string list" where
  "sort_by_rev_len keys = foldl (\<lambda>sorted k. rev (insert_by_rev_len k (rev sorted))) [] keys"

text \<open>
  Runs of \<^verbatim>\<open>range mapping\<close>: one yields the keys in the order they were stored,
  another starts \<open>n\<close> slots later and wraps around.
\<close>

definition ko_stored :: "string list \<Rightarrow> string list" where
  "ko_stored keys = sort_by_rev_len keys"

definition ko_rotated :: "nat \<Rightarrow> string list \<Rightarrow> string list" where
  "ko_rotated n keys = sort_by_rev_len (rotate n keys)"

text \<open>
  A stand-in for the digest in worked examples: the bytes of a serialisation of the
  segment, in hexadecimal. It is injective, so two segments share a fingerprint exactly
  when they are equal; md5 differs from it by its fixed length and its collisions.
\<close>

definition hex_digit :: "nat \<Rightarrow> char" where
  "hex_digit n = (if n < 10 then char_of (48 + n) else char_of (87 + n))"

definition hex_of :: "string \<Rightarrow> string" where
  "hex_of s = concat (map (\<lambda>c. [hex_digit (of_char c div 16), hex_digit (of_char c mod 16)]) s)"

fun show_scalar :: "scalar \<Rightarrow> string" where
  "show_scalar SNull = ''null''"
| "show_scalar (SInt i) = show_int i"
| "show_scalar (SFloat f) = f"
| "show_scalar (SText t) = CHR 0x22 # t @ [CHR 0x22]"
| "show_scalar (SBool b) = (if b then ''true'' else ''false'')"

definition fp_hex :: "scalar om \<Rightarrow> string option" where
  "fp_hex part =
     Some (hex_of (concat (map (\<lambda>(k, v). CHR 0x22 # k @ [CHR 0x22] @ '':'' @ show_scalar v @ '','') part)))"


text \<open>
  Two rows of a query that selects a root column, a column of an array \<^verbatim>\<open>aa\<close>, a
  column of an array \<^verbatim>\<open>bb\<close> and a column of an array \<^verbatim>\<open>cc\<close> inside an array
  \<^verbatim>\<open>bb\<close> inside \<^verbatim>\<open>aa\<close>; and the two trees that reconstruction can make of
  them.
\<close>

definition fanout_records :: "scalar om list" where
  "fanout_records =
     [[(''[].id'', SInt 1), (''[].aa[].x'', SInt 1), (''[].bb[].y'', SInt 1),
       (''[].aa[].bb[].cc[].z'', SInt 1)],
      [(''[].id'', SInt 1), (''[].aa[].x'', SInt 1), (''[].bb[].y'', SInt 2),
       (''[].aa[].bb[].cc[].z'', SInt 2)]]"

definition merged_under_bb :: node where
  "merged_under_bb =
     Arr [Obj [(''id'', Leaf (SInt 1)),
               (''aa'', Arr [Obj [(''x'', Leaf (SInt 1)),
                                  (''bb'', Arr [Obj [(''cc'', Arr [Obj [(''z'', Leaf (SInt 1))],
                                                                   Obj [(''z'', Leaf (SInt 2))]])]])]]),
               (''bb'', Arr [Obj [(''y'', Leaf (SInt 1))], Obj [(''y'', Leaf (SInt 2))]])]]"

definition split_under_bb :: node where
  "split_under_bb =
     Arr [Obj [(''id'', Leaf (SInt 1)),
               (''aa'', Arr [Obj [(''x'', Leaf (SInt 1)),
                                  (''bb'', Arr [Obj [(''cc'', Arr [Obj [(''z'', Leaf (SInt 1))]])],
                                                Obj [(''cc'', Arr [Obj [(''z'', Leaf (SInt 2))]])]])]]),
               (''bb'', Arr [Obj [(''y'', Leaf (SInt 1))], Obj [(''y'', Leaf (SInt 2))]])]]"


section \<open>Query analysis results and cardinality\<close>

text \<open>
  The structs of the analyser and of the metadata reader. The fields of
  \<^verbatim>\<open>JoinColumn\<close> carry the prefix \<open>On\<close>, since \<^verbatim>\<open>JoinInfo\<close> has fields of the
  same names.
\<close>

record JoinColumn =
  OnLeftAlias :: string
  OnLeftColumn :: string
  OnRightAlias :: string
  OnRightColumn :: string

record JoinInfo =
  LeftAlias :: string
  LeftTable :: string
  RightAlias :: string
  RightTable :: string
  JoinType :: string
  Condition :: string
  OnColumns :: "JoinColumn list"

record ForeignKey =
  FromTable :: string
  FromColumn :: string
  ToTable :: string
  ToColumn :: string

text \<open>
  \<^verbatim>\<open>Tables\<close> is a Go map that the code ranges over: it is held as the list of
  its entries in the order that range yields them (any order of the entries is one the
  language allows). \<^verbatim>\<open>PathHints\<close> is only looked up and updated.
\<close>

record QueryAnalysis =
  Tables :: "(string \<times> string) list"
  Joins :: "JoinInfo list"
  PathHints :: "string \<rightharpoonup> string"

subsection \<open>isOneToManyJoin\<close>

definition left_join :: "JoinInfo \<Rightarrow> bool" where
  "left_join join = (JoinType join = ''LEFT'' \<or> JoinType join = ''LEFT OUTER'')"

text \<open>The two tests of the inner loop body, for one predicate and one foreign key.\<close>

definition fk_right_to_left :: "JoinInfo \<Rightarrow> JoinColumn \<Rightarrow> ForeignKey \<Rightarrow> bool" where
  "fk_right_to_left join jc fk =
     (FromTable fk = RightTable join \<and> ToTable fk = LeftTable join \<and>
      ((OnRightAlias jc = RightAlias join \<and> OnRightColumn jc = FromColumn fk) \<or>
       (OnLeftAlias jc = RightAlias join \<and> OnLeftColumn jc = FromColumn fk)))"

definition fk_left_to_right :: "JoinInfo \<Rightarrow> JoinColumn \<Rightarrow> ForeignKey \<Rightarrow> bool" where
  "fk_left_to_right join jc fk =
     (FromTable fk = LeftTable join \<and> ToTable fk = RightTable join \<and>
      ((OnLeftAlias jc = LeftAlias join \<and> OnLeftColumn jc = FromColumn fk) \<or>
       (OnRightAlias jc = LeftAlias join \<and> OnRightColumn jc = FromColumn fk)))"

text \<open>The loops return from the function at the first test that holds (\<open>Some\<close>).\<close>

fun fk_loop :: "JoinInfo \<Rightarrow> JoinColumn \<Rightarrow> ForeignKey list \<Rightarrow> bool option" where
  "fk_loop join jc [] = None"
| "fk_loop join jc (fk # allFKs) =
     (if fk_right_to_left join jc fk then Some True
      else if fk_left_to_right join jc fk then Some False
      else fk_loop join jc allFKs)"

fun jc_loop :: "JoinInfo \<Rightarrow> JoinColumn list \<Rightarrow> ForeignKey list \<Rightarrow> bool option" where
  "jc_loop join [] allFKs = None"
| "jc_loop join (jc # jcs) allFKs =
     (case fk_loop join jc allFKs of
        Some b \<Rightarrow> Some b
      | None \<Rightarrow> jc_loop join jcs allFKs)"

definition isOneToManyJoin :: "JoinInfo \<Rightarrow> ForeignKey list \<Rightarrow> bool" where
  "isOneToManyJoin join allFKs =
     (if length (OnColumns join) = 0 then left_join join
      else
        (case jc_loop join (OnColumns join) allFKs of
           Some b \<Rightarrow> b
         | None \<Rightarrow> left_join join))"

text \<open>
  The rule as the specification words it: a matching foreign key from the right table
  to the left one makes an array; otherwise a matching one from the left table to the
  right one makes an object; otherwise the join kind decides.
\<close>

definition some_right_to_left :: "JoinInfo \<Rightarrow> ForeignKey list \<Rightarrow> bool" where
  "some_right_to_left join allFKs =
     list_ex (\<lambda>jc. list_ex (fk_right_to_left join jc) allFKs) (OnColumns join)"

definition some_left_to_right :: "JoinInfo \<Rightarrow> ForeignKey list \<Rightarrow> bool" where
  "some_left_to_right join allFKs =
     list_ex (\<lambda>jc. list_ex (fk_left_to_right join jc) allFKs) (OnColumns join)"

definition spec_join_is_array :: "JoinInfo \<Rightarrow> ForeignKey list \<Rightarrow> bool" where
  "spec_join_is_array join allFKs =
     (if some_right_to_left join allFKs then True
      else if some_left_to_right join allFKs then False
      else left_join join)"

text \<open>
  The pairs the loops visit, in their order: predicates outside, foreign keys inside.
\<close>

definition visited_pairs :: "JoinInfo \<Rightarrow> ForeignKey list \<Rightarrow> (JoinColumn \<times> ForeignKey) list" where
  "visited_pairs join allFKs = concat (map (\<lambda>jc. map (Pair jc) allFKs) (OnColumns join))"

text \<open>A pair at which one of the two tests holds ends the loops.\<close>

definition decisive :: "JoinInfo \<Rightarrow> JoinColumn \<times> ForeignKey \<Rightarrow> bool" where
  "decisive join p = (fk_right_to_left join (fst p) (snd p) \<or> fk_left_to_right join (fst p) (snd p))"

text \<open>
  Two schemas: comments that refer to posts, and users and profiles that refer to each
  other.
\<close>

definition users_profiles :: JoinInfo where
  "users_profiles =
     \<lparr>LeftAlias = ''u'', LeftTable = ''users'', RightAlias = ''p'', RightTable = ''profiles'',
      JoinType = ''INNER'', Condition = ''u.profile_id = p.id AND p.user_id = u.id'',
      OnColumns =
        [\<lparr>OnLeftAlias = ''u'', OnLeftColumn = ''profile_id'', OnRightAlias = ''p'', OnRightColumn = ''id''\<rparr>,
         \<lparr>OnLeftAlias = ''p'', OnLeftColumn = ''user_id'', OnRightAlias = ''u'', OnRightColumn = ''id''\<rparr>]\<rparr>"

definition mutual_fks :: "ForeignKey list" where
  "mutual_fks =
     [\<lparr>FromTable = ''users'', FromColumn = ''profile_id'', ToTable = ''profiles'', ToColumn = ''id''\<rparr>,
      \<lparr>FromTable = ''profiles'', FromColumn = ''user_id'', ToTable = ''users'', ToColumn = ''id''\<rparr>]"

definition posts_comments :: JoinInfo where
  "posts_comments =
     \<lparr>LeftAlias = ''p'', LeftTable = ''posts'', RightAlias = ''c'', RightTable = ''comments'',
      JoinType = ''LEFT'', Condition = ''c.post_id = p.id'',
      OnColumns =
        [\<lparr>OnLeftAlias = ''c'', OnLeftColumn = ''post_id'', OnRightAlias = ''p'', OnRightColumn = ''id''\<rparr>]\<rparr>"

definition comment_fks :: "ForeignKey list" where
  "comment_fks =
     [\<lparr>FromTable = ''comments'', FromColumn = ''post_id'', ToTable = ''posts'', ToColumn = ''id''\<rparr>]"

subsection \<open>buildCardinalityMap\<close>

text \<open>The first alias that range yields and that is no join's right side, or \<^verbatim>\<open>""\<close>.\<close>

definition joinedAliases :: "QueryAnalysis \<Rightarrow> string set" where
  "joinedAliases analysis = set (map RightAlias (Joins analysis))"

definition find_root :: "QueryAnalysis \<Rightarrow> string" where
  "find_root analysis =
     (case find (\<lambda>alias. alias \<notin> joinedAliases analysis) (map fst (Tables analysis)) of
        Some alias \<Rightarrow> alias
      | None \<Rightarrow> [])"

text \<open>\<^verbatim>\<open>analysis.Tables[k] = v\<close> on the entry list.\<close>

fun tables_set :: "(string \<times> string) list \<Rightarrow> string \<Rightarrow> string \<Rightarrow> (string \<times> string) list" where
  "tables_set [] k v = [(k, v)]"
| "tables_set ((k', v') # m) k v =
     (if k' = k then (k, v) # m else (k', v') # tables_set m k v)"

text \<open>
  The special case of a hint for \<^verbatim>\<open>$\<close>: it names the root when no table does, and
  it is copied onto the root alias. The result is the root alias and the analysis as
  the code leaves it.
\<close>

definition apply_root_hint :: "QueryAnalysis \<Rightarrow> string \<times> QueryAnalysis" where
  "apply_root_hint analysis =
     (let rootAlias = find_root analysis in
      case PathHints analysis ''$'' of
        Some hintPath \<Rightarrow>
          (let (rootAlias', analysis') =
                 (if rootAlias = [] then
                    (''$'', analysis\<lparr>Tables := tables_set (Tables analysis) ''$'' ''$''\<rparr>)
                  else (rootAlias, analysis))
           in (rootAlias',
               analysis'\<lparr>PathHints := (PathHints analysis')(rootAlias' \<mapsto> hintPath)\<rparr>))
      | None \<Rightarrow> (rootAlias, analysis))"

definition root_cardinality :: "QueryAnalysis \<Rightarrow> string \<Rightarrow> (string \<rightharpoonup> bool)" where
  "root_cardinality analysis rootAlias =
     (if rootAlias \<noteq> [] then
        (case PathHints analysis rootAlias of
           Some hintPath \<Rightarrow>
             (if has_suffix hintPath ''[]'' then [rootAlias \<mapsto> True]
              else if hintPath = ''$'' then [rootAlias \<mapsto> False]
              else [rootAlias \<mapsto> length (Joins analysis) > 0])
         | None \<Rightarrow> [rootAlias \<mapsto> True])
      else Map.empty)"

fun joins_cardinality ::
  "JoinInfo list \<Rightarrow> ForeignKey list \<Rightarrow> (string \<rightharpoonup> bool) \<Rightarrow> (string \<rightharpoonup> bool)" where
  "joins_cardinality [] allFKs cardinality = cardinality"
| "joins_cardinality (join # joins) allFKs cardinality =
     joins_cardinality joins allFKs
       (cardinality(RightAlias join \<mapsto> isOneToManyJoin join allFKs))"

fun default_cardinality :: "string list \<Rightarrow> (string \<rightharpoonup> bool) \<Rightarrow> (string \<rightharpoonup> bool)" where
  "default_cardinality [] cardinality = cardinality"
| "default_cardinality (alias # aliases) cardinality =
     default_cardinality aliases
       (case cardinality alias of None \<Rightarrow> cardinality(alias \<mapsto> True) | Some _ \<Rightarrow> cardinality)"

text \<open>
  \<open>fks\<close> is what \<^verbatim>\<open>GetAllForeignKeys\<close> returned. The analysis is returned with the
  map, since the function updates it in place.
\<close>

definition buildCardinalityMap ::
  "error + ForeignKey list \<Rightarrow> QueryAnalysis \<Rightarrow> error + ((string \<rightharpoonup> bool) \<times> QueryAnalysis)" where
  "buildCardinalityMap fks analysis =
     (case fks of
        Inl err \<Rightarrow> Inl err
      | Inr allFKs \<Rightarrow>
          (case apply_root_hint analysis of
             (rootAlias, analysis') \<Rightarrow>
               Inr (default_cardinality (map fst (Tables analysis'))
                      (joins_cardinality (Joins analysis') allFKs
                         (root_cardinality analysis' rootAlias)),
                    analysis')))"








text \<open>
  \<^verbatim>\<open>FROM posts, comments\<close> with the hint \<^verbatim>\<open>$.posts\<close> for \<^verbatim>\<open>posts\<close>, in the two
  orders in which range may yield the two entries of \<^verbatim>\<open>Tables\<close>.
\<close>

definition posts_then_comments :: QueryAnalysis where
  "posts_then_comments =
     \<lparr>Tables = [(''posts'', ''posts''), (''comments'', ''comments'')], Joins = [],
      PathHints = [''posts'' \<mapsto> ''$.posts'']\<rparr>"

definition comments_then_posts :: QueryAnalysis where
  "comments_then_posts =
     \<lparr>Tables = [(''comments'', ''comments''), (''posts'', ''posts'')], Joins = [],
      PathHints = [''posts'' \<mapsto> ''$.posts'']\<rparr>"


section \<open>Normalising raw cells: convertBytes\<close>

text \<open>
  \<^verbatim>\<open>convertBytes\<close> calls \<^verbatim>\<open>fmt.Sscanf\<close> with the verbs \<^verbatim>\<open>%d\<close> and \<^verbatim>\<open>%f\<close>.
  The scanner of package \<^verbatim>\<open>fmt\<close> is modelled as far as these two calls use it. Its
  state is the text accepted so far and the input left.
\<close>

text \<open>
  The white space that \<^verbatim>\<open>SkipSpace\<close> passes over, as UTF-8: U+0009, U+000B to U+000D,
  U+0020, U+0085, U+00A0, U+1680, U+2000 to U+200A, U+2028, U+2029, U+202F, U+205F and
  U+3000. A newline is an error for \<^verbatim>\<open>Sscanf\<close>.
\<close>

definition space_runes :: "string list" where
  "space_runes =
     [[CHR 0x09], [CHR 0x0B], [CHR 0x0C], [CHR 0x0D], [CHR 0x20],
      [CHR 0xC2, CHR 0x85], [CHR 0xC2, CHR 0xA0], [CHR 0xE1, CHR 0x9A, CHR 0x80]]
     @ map (\<lambda>n. [CHR 0xE2, CHR 0x80, char_of (128 + n)]) [0..<11]
     @ [[CHR 0xE2, CHR 0x80, CHR 0xA8], [CHR 0xE2, CHR 0x80, CHR 0xA9],
        [CHR 0xE2, CHR 0x80, CHR 0xAF], [CHR 0xE2, CHR 0x81, CHR 0x9F],
        [CHR 0xE3, CHR 0x80, CHR 0x80]]"

function skip_space :: "string \<Rightarrow> error + string" where
  "skip_space s =
     (if s = [] then Inr []
      else if hd s = CHR 0x0A then Inl (Failure ''unexpected newline'')
      else
        (case find (\<lambda>r. r \<noteq> [] \<and> prefix r s) space_runes of
           Some r \<Rightarrow> skip_space (drop (length r) s)
         | None \<Rightarrow> Inr s))"
  by pat_completeness auto
termination
  by (relation "measure length") (auto simp: find_Some_iff)

text \<open>\<^verbatim>\<open>accept\<close> takes the next character when it is one of \<open>chars\<close>.\<close>

definition accept :: "string \<Rightarrow> string \<times> string \<Rightarrow> (string \<times> string) option" where
  "accept chars st =
     (case snd st of
        c # rest \<Rightarrow> if c \<in> set chars then Some (fst st @ [c], rest) else None
      | [] \<Rightarrow> None)"

definition accept_opt :: "string \<Rightarrow> string \<times> string \<Rightarrow> string \<times> string" where
  "accept_opt chars st = (case accept chars st of Some st' \<Rightarrow> st' | None \<Rightarrow> st)"

text \<open>\<^verbatim>\<open>for s.accept(chars) {}\<close>.\<close>

definition accept_many :: "string \<Rightarrow> string \<times> string \<Rightarrow> string \<times> string" where
  "accept_many chars st =
     (fst st @ takeWhile (\<lambda>c. c \<in> set chars) (snd st),
      dropWhile (\<lambda>c. c \<in> set chars) (snd st))"

definition decimalDigits :: string where
  "decimalDigits = ''0123456789''"

definition hexadecimalDigits :: string where
  "hexadecimalDigits = ''0123456789aAbBcCdDeEfF''"

text \<open>\<^verbatim>\<open>strconv.ParseInt(tok, 10, 64)\<close> on a token of an optional sign and digits.\<close>

definition digits_value :: "string \<Rightarrow> int" where
  "digits_value ds = foldl (\<lambda>n c. 10 * n + (int (of_char c) - 48)) 0 ds"

definition ParseInt :: "string \<Rightarrow> error + int" where
  "ParseInt tok =
     (let (neg, ds) = (case tok of
                         c # rest \<Rightarrow> if c = CHR ''-'' then (True, rest)
                                    else if c = CHR ''+'' then (False, rest) else (False, tok)
                       | [] \<Rightarrow> (False, []));
          i = (if neg then - digits_value ds else digits_value ds)
      in if ds = [] \<or> \<not> list_all (\<lambda>c. c \<in> set decimalDigits) ds
         then Inl (Failure ''invalid syntax'')
         else if i < - (2 ^ 63) \<or> 2 ^ 63 - 1 < i then Inl (Failure ''value out of range'')
         else Inr i)"

text \<open>
  \<^verbatim>\<open>Sscanf(s, "%d", &i)\<close>: white space, an optional sign, at least one digit, then
  \<^verbatim>\<open>ParseInt\<close> on what was accepted. Input left over is no error.
\<close>

definition scan_d :: "string \<Rightarrow> error + int" where
  "scan_d s =
     (case skip_space s of
        Inl err \<Rightarrow> Inl err
      | Inr s1 \<Rightarrow>
          if s1 = [] then Inl (Failure ''unexpected EOF'')
          else
            (let st = accept_opt ''+-'' ([], s1) in
             if snd st = [] then Inl (Failure ''unexpected EOF'')
             else
               (case accept decimalDigits st of
                  None \<Rightarrow> Inl (Failure ''expected integer'')
                | Some st' \<Rightarrow> ParseInt (fst (accept_many decimalDigits st')))))"

text \<open>
  \<^verbatim>\<open>floatToken\<close>: what the scanner accepts as the text of a float. A character is
  kept once accepted, also when the word it began (\<^verbatim>\<open>nan\<close>, \<^verbatim>\<open>inf\<close>,
  \<^verbatim>\<open>0x\<close>) is not completed.
\<close>

definition accept_word :: "string list \<Rightarrow> string \<times> string \<Rightarrow> bool \<times> (string \<times> string)" where
  "accept_word classes st =
     foldl (\<lambda>(ok, st) chars.
              if ok then (case accept chars st of Some st' \<Rightarrow> (True, st') | None \<Rightarrow> (False, st))
              else (False, st))
       (True, st) classes"

definition floatToken :: "string \<Rightarrow> string \<times> string" where
  "floatToken s =
     (case accept_word [''nN'', ''aA'', ''nN''] ([], s) of
        (True, st) \<Rightarrow> st
      | (False, st0) \<Rightarrow>
          (let st1 = accept_opt ''+-'' st0 in
           case accept_word [''iI'', ''nN'', ''fF''] st1 of
             (True, st) \<Rightarrow> st
           | (False, st2) \<Rightarrow>
               (let (hex, st3) = accept_word [''0'', ''xX''] st2;
                    digits = (if hex then hexadecimalDigits else decimalDigits) @ ''_'';
                    exp = (if hex then ''pP'' else ''eEpP'');
                    st4 = accept_many digits st3;
                    st5 = (case accept ''.'' st4 of
                             Some st \<Rightarrow> accept_many digits st
                           | None \<Rightarrow> st4)
                in case accept exp st5 of
                     Some st \<Rightarrow> accept_many (decimalDigits @ ''_'') (accept_opt ''+-'' st)
                   | None \<Rightarrow> st5)))"

text \<open>
  \<^verbatim>\<open>convertFloat\<close> hands the token to \<^verbatim>\<open>strconv.ParseFloat\<close>, or, for a token with a
  \<^verbatim>\<open>p\<close> and no \<^verbatim>\<open>x\<close>, the part before the \<^verbatim>\<open>p\<close> to \<^verbatim>\<open>ParseFloat\<close> and the part
  after it to \<^verbatim>\<open>strconv.Atoi\<close>. Which texts \<^verbatim>\<open>ParseFloat\<close> takes as a float64 is a
  matter of floating point and is the parameter \<open>pf\<close>; the float read is carried as the
  token.
\<close>

definition convertFloat_ok :: "(string \<Rightarrow> bool) \<Rightarrow> string \<Rightarrow> bool" where
  "convertFloat_ok pf tok =
     (if CHR ''p'' \<in> set tok \<and> CHR ''x'' \<notin> set tok \<and> CHR ''X'' \<notin> set tok then
        pf (takeWhile (\<lambda>c. c \<noteq> CHR ''p'') tok)
        \<and> \<not> isl (ParseInt (drop 1 (dropWhile (\<lambda>c. c \<noteq> CHR ''p'') tok)))
      else pf tok)"

definition scan_f :: "(string \<Rightarrow> bool) \<Rightarrow> string \<Rightarrow> error + string" where
  "scan_f pf s =
     (case skip_space s of
        Inl err \<Rightarrow> Inl err
      | Inr s1 \<Rightarrow>
          if s1 = [] then Inl (Failure ''unexpected EOF'')
          else
            (let tok = fst (floatToken s1) in
             if convertFloat_ok pf tok then Inr tok else Inl (Failure ''invalid syntax'')))"

definition convertBytes :: "(string \<Rightarrow> bool) \<Rightarrow> string \<Rightarrow> scalar" where
  "convertBytes pf s =
     (let as_float =
            (case scan_f pf s of
               Inr tok \<Rightarrow> if contains s ''.'' then SFloat tok else SText s
             | Inl err \<Rightarrow> SText s)
      in case scan_d s of
           Inr i \<Rightarrow> if show_int i = s then SInt i else as_float
         | Inl err \<Rightarrow> as_float)"

text \<open>
  The rule as the specification words it: an integer when the whole text is the numeral
  of an integer, else a float when the text contains a dot and parses as a float with
  nothing left over, else the text.
\<close>

definition spec_convert :: "(string \<Rightarrow> bool) \<Rightarrow> string \<Rightarrow> scalar" where
  "spec_convert pf s =
     (case ParseInt s of
        Inr i \<Rightarrow> SInt i
      | Inl err \<Rightarrow> if contains s ''.'' \<and> pf s then SFloat s else SText s)"

text \<open>
  The plain decimal literals, which \<^verbatim>\<open>ParseFloat\<close> takes: an optional sign and
  digits with at most one dot among them.
\<close>

definition plain_decimal :: "string \<Rightarrow> bool" where
  "plain_decimal s =
     (let body = (case s of c # rest \<Rightarrow> if c \<in> set ''+-'' then rest else s | [] \<Rightarrow> []);
          whole = takeWhile (\<lambda>c. c \<in> set decimalDigits) body;
          rest = dropWhile (\<lambda>c. c \<in> set decimalDigits) body;
          frac = (case rest of c # cs \<Rightarrow> if c = CHR ''.'' then Some cs else None | [] \<Rightarrow> Some [])
      in case frac of
           None \<Rightarrow> False
         | Some cs \<Rightarrow> list_all (\<lambda>c. c \<in> set decimalDigits) cs \<and> (whole \<noteq> [] \<or> cs \<noteq> []))"


section \<open>Structural analysis: AnalyzeQuery\<close>

text \<open>
  The analyser works through package \<^verbatim>\<open>regexp\<close> and through \<^verbatim>\<open>strings.ToUpper\<close> and
  \<^verbatim>\<open>strings.TrimSpace\<close>, which follow Unicode. These are taken as given: a record holds,
  for each compiled expression, the library call that the code makes with it.
  \<^item> \<open>hintMatches\<close>: \<^verbatim>\<open>FindAllStringSubmatch\<close> of the hint expression;
  \<^item> \<open>lineComments\<close>, \<open>blockComments\<close>: the two \<^verbatim>\<open>ReplaceAllString\<close> of
    \<^verbatim>\<open>removeComments\<close>;
  \<^item> \<open>fromMatch\<close>: \<^verbatim>\<open>FindStringSubmatch\<close> of the FROM expression (\<open>[]\<close> is nil);
  \<^item> \<open>spaceSplit\<close>: \<^verbatim>\<open>Split\<close> of \<^verbatim>\<open>\s+\<close>;
  \<^item> \<open>joinMatches\<close>: \<^verbatim>\<open>FindAllStringSubmatch\<close> of the JOIN expression;
  \<^item> \<open>conditionMatches\<close>: \<^verbatim>\<open>FindAllStringSubmatch\<close> of the equality expression.
\<close>

record library =
  hintMatches :: "string \<Rightarrow> string list list"
  lineComments :: "string \<Rightarrow> string"
  blockComments :: "string \<Rightarrow> string"
  fromMatch :: "string \<Rightarrow> string list"
  spaceSplit :: "string \<Rightarrow> string list"
  joinMatches :: "string \<Rightarrow> string list list"
  conditionMatches :: "string \<Rightarrow> string list list"
  ToUpper :: "string \<Rightarrow> string"
  TrimSpace :: "string \<Rightarrow> string"

text \<open>
  What the library guarantees of the JOIN expression, which has four groups: every
  match is a slice of five strings.
\<close>

definition join_groups :: "library \<Rightarrow> bool" where
  "join_groups L = (\<forall>sql. list_all (\<lambda>match. length match = 5) (joinMatches L sql))"

text \<open>\<^verbatim>\<open>strings.Index(s, sub)\<close>; \<open>None\<close> is Go's \<open>-1\<close>.\<close>

fun index_of :: "string \<Rightarrow> string \<Rightarrow> nat option" where
  "index_of [] sub = (if sub = [] then Some 0 else None)"
| "index_of (c # cs) sub =
     (if prefix sub (c # cs) then Some 0 else map_option Suc (index_of cs sub))"

definition extractPathHints :: "library \<Rightarrow> string \<Rightarrow> (string \<rightharpoonup> string)" where
  "extractPathHints L sql =
     foldl (\<lambda>hints match.
              (case match of
                 [whole, alias, path] \<Rightarrow> hints(alias \<mapsto> path)
               | _ \<Rightarrow> hints))
       Map.empty (hintMatches L sql)"

definition removeComments :: "library \<Rightarrow> string \<Rightarrow> string" where
  "removeComments L sql = blockComments L (lineComments L sql)"

definition clause_keywords :: "string list" where
  "clause_keywords =
     [''WHERE'', ''LEFT'', ''RIGHT'', ''INNER'', ''OUTER'', ''JOIN'', ''ORDER'', ''GROUP'',
      ''LIMIT'', ''HAVING'']"

text \<open>One item of the FROM list.\<close>

definition from_item :: "library \<Rightarrow> QueryAnalysis \<Rightarrow> string \<Rightarrow> QueryAnalysis" where
  "from_item L analysis tableSpec0 =
     (let tableSpec = TrimSpace L tableSpec0 in
      if tableSpec = [] then analysis
      else
        (case spaceSplit L tableSpec of
           [] \<Rightarrow> analysis
         | tableName # rest \<Rightarrow>
             (let alias =
                    (case rest of
                       [] \<Rightarrow> tableName
                     | second # others \<Rightarrow>
                         (if length others \<ge> 1 \<and> ToUpper L second = ''AS'' then hd others
                          else if ToUpper L second \<noteq> ''AS'' then second
                          else tableName));
                  upperAlias = ToUpper L alias
              in if upperAlias \<notin> set clause_keywords
                 then analysis\<lparr>Tables := tables_set (Tables analysis) alias tableName\<rparr>
                 else analysis)))"

definition extractFromClause :: "library \<Rightarrow> string \<Rightarrow> QueryAnalysis \<Rightarrow> QueryAnalysis" where
  "extractFromClause L sql0 analysis =
     (let sql = removeComments L sql0;
          matches = fromMatch L sql
      in if length matches \<ge> 2
         then foldl (from_item L) analysis (split (matches ! 1) '','')
         else analysis)"

definition parseJoinCondition :: "library \<Rightarrow> string \<Rightarrow> JoinColumn list" where
  "parseJoinCondition L condition =
     concat (map (\<lambda>match.
                    (case match of
                       [whole, la, lc, ra, rc] \<Rightarrow>
                         [\<lparr>OnLeftAlias = la, OnLeftColumn = lc, OnRightAlias = ra, OnRightColumn = rc\<rparr>]
                     | _ \<Rightarrow> []))
               (conditionMatches L condition))"

definition stopWords :: "string list" where
  "stopWords = [''WHERE'', ''GROUP BY'', ''GROUP'', ''ORDER BY'', ''ORDER'', ''LIMIT'', ''HAVING'']"

text \<open>
  The loop over the stop words: the index is found in the upper-cased condition and
  used to slice the condition itself.
\<close>

fun cut_condition :: "library \<Rightarrow> string list \<Rightarrow> string \<Rightarrow> error + string" where
  "cut_condition L [] condition = Inr condition"
| "cut_condition L (word # words) condition =
     (case index_of (ToUpper L condition) word of
        Some idx \<Rightarrow>
          (if idx \<le> length condition then Inr (TrimSpace L (take idx condition))
           else Inl (Panic ''slice bounds out of range''))
      | None \<Rightarrow> cut_condition L words condition)"

text \<open>The first table, as range yields them, whose alias is not the one being joined.\<close>

definition other_table :: "(string \<times> string) list \<Rightarrow> string \<Rightarrow> string \<times> string" where
  "other_table tables alias =
     (case find (\<lambda>(a, t). a \<noteq> alias) tables of Some (a, t) \<Rightarrow> (a, t) | None \<Rightarrow> ([], []))"

definition left_side ::
  "(string \<times> string) list \<Rightarrow> string \<Rightarrow> JoinColumn list \<Rightarrow> string \<times> string" where
  "left_side tables alias onColumns =
     (case onColumns of
        [] \<Rightarrow> other_table tables alias
      | first # others \<Rightarrow>
          (let (leftAlias, leftTable) =
                 (if OnRightAlias first = alias then (OnLeftAlias first, [])
                  else if OnLeftAlias first = alias then (OnRightAlias first, [])
                  else other_table tables alias)
           in if leftAlias \<noteq> [] then
                (case map_of tables leftAlias of
                   Some lt \<Rightarrow> (leftAlias, lt)
                 | None \<Rightarrow> (leftAlias, leftTable))
              else (leftAlias, leftTable)))"

text \<open>One match of the JOIN expression; \<^verbatim>\<open>match[1]\<close> to \<^verbatim>\<open>match[4]\<close> are read.\<close>

definition join_match :: "library \<Rightarrow> QueryAnalysis \<Rightarrow> string list \<Rightarrow> error + QueryAnalysis" where
  "join_match L analysis match =
     (case match of
        whole # kind # tableName # aliasGroup # conditionGroup # rest \<Rightarrow>
          (let joinType0 = TrimSpace L (ToUpper L kind);
               joinType = (if joinType0 = [] then ''INNER'' else TrimSpace L joinType0);
               alias = (if aliasGroup \<noteq> [] then aliasGroup else tableName)
           in case cut_condition L stopWords (TrimSpace L conditionGroup) of
                Inl err \<Rightarrow> Inl err
              | Inr condition \<Rightarrow>
                  (let tables = tables_set (Tables analysis) alias tableName;
                       onColumns = parseJoinCondition L condition;
                       (leftAlias, leftTable) = left_side tables alias onColumns;
                       joinInfo = \<lparr>LeftAlias = leftAlias, LeftTable = leftTable,
                                   RightAlias = alias, RightTable = tableName,
                                   JoinType = joinType, Condition = condition,
                                   OnColumns = onColumns\<rparr>
                   in Inr (analysis\<lparr>Tables := tables, Joins := Joins analysis @ [joinInfo]\<rparr>)))
      | _ \<Rightarrow> Inl (Panic ''index out of range''))"

fun join_loop :: "library \<Rightarrow> QueryAnalysis \<Rightarrow> string list list \<Rightarrow> error + QueryAnalysis" where
  "join_loop L analysis [] = Inr analysis"
| "join_loop L analysis (match # matches) =
     (case join_match L analysis match of
        Inl err \<Rightarrow> Inl err
      | Inr analysis' \<Rightarrow> join_loop L analysis' matches)"

definition extractJoins :: "library \<Rightarrow> string \<Rightarrow> QueryAnalysis \<Rightarrow> error + QueryAnalysis" where
  "extractJoins L sql0 analysis = join_loop L analysis (joinMatches L (removeComments L sql0))"

definition AnalyzeQuery :: "library \<Rightarrow> string \<Rightarrow> error + QueryAnalysis" where
  "AnalyzeQuery L sql =
     (let analysis = \<lparr>Tables = [], Joins = [], PathHints = extractPathHints L sql\<rparr>
      in extractJoins L sql (extractFromClause L sql analysis))"

text \<open>
  A query with a join whose condition holds six times the letter U+0250, of two bytes
  in UTF-8, and the word WHERE. Its capital, U+2C6F, has three bytes.
\<close>

definition turned_a :: string where
  "turned_a = [CHR 0xC9, CHR 0x90]"

definition capital_turned_a :: string where
  "capital_turned_a = [CHR 0xE2, CHR 0xB1, CHR 0xAF]"

definition turned_condition :: string where
  "turned_condition = concat (replicate 6 turned_a) @ ''WHERE''"

definition turned_query :: string where
  "turned_query = ''SELECT * FROM a JOIN b ON '' @ turned_condition"

text \<open>
  A library for worked examples. It answers as the Go library does on the text above and
  on texts of ASCII letters without comments, hints or further joins: \<open>ToUpper\<close> maps
  the small ASCII letters and U+0250 to their capitals, the JOIN expression finds the
  one join of the text above, and nothing else matches.
\<close>

definition upper_byte :: "char \<Rightarrow> char" where
  "upper_byte c =
     (let n = (of_char c :: nat) in if 97 \<le> n \<and> n \<le> 122 then char_of (n - 32) else c)"

fun upper_bytes :: "string \<Rightarrow> string" where
  "upper_bytes [] = []"
| "upper_bytes [c] = [upper_byte c]"
| "upper_bytes (c # d # rest) =
     (if [c, d] = turned_a then capital_turned_a @ upper_bytes rest
      else upper_byte c # upper_bytes (d # rest))"

definition example_library :: library where
  "example_library =
     \<lparr>hintMatches = (\<lambda>sql. []),
      lineComments = (\<lambda>sql. sql),
      blockComments = (\<lambda>sql. sql),
      fromMatch = (\<lambda>sql. if sql = turned_query then [''FROM a JOIN'', ''a''] else []),
      spaceSplit = (\<lambda>s. [s]),
      joinMatches = (\<lambda>sql. if sql = turned_query
                             then [[''JOIN b ON '' @ turned_condition, [], ''b'', [], turned_condition]]
                             else []),
      conditionMatches = (\<lambda>s. []),
      ToUpper = upper_bytes,
      TrimSpace = (\<lambda>s. s)\<rparr>"


section \<open>Properties of removeHashes\<close>

declare conflicts.simps [simp del] no_empty_map_key.simps [simp del] removeHashes.simps [simp del]

lemma tagged_simps [simp]:
  "tagged (k, Leaf s) = False" "tagged (k, Arr xs) = False" "tagged (k, Obj m) = is_hash_key k"
  by (simp_all add: tagged_def)

lemma om_keys_om_set_list:
  "om_keys (om_set m k v) = (if k \<in> set (om_keys m) then om_keys m else om_keys m @ [k])"
  by (induction m) (force simp: om_keys_def)+

lemma om_keys_om_set: "set (om_keys (om_set m k v)) = insert k (set (om_keys m))"
  by (auto simp: om_keys_om_set_list)

lemma rh_loop_keys:
  "rh_loop kvs path vs ts rs = Inr (vs', ts', rs') \<Longrightarrow>
     set (om_keys vs') \<union> set (om_keys ts')
       = set (om_keys vs) \<union> set (om_keys ts) \<union> fst ` set (filter (\<lambda>kv. \<not> tagged kv) kvs)
     \<and> (rs' \<noteq> [] \<longleftrightarrow> rs \<noteq> [] \<or> list_ex tagged kvs)"
proof (induction kvs arbitrary: vs ts rs)
  case Nil
  then show ?case by simp
next
  case (Cons kv kvs)
  obtain k v where kv: "kv = (k, v)" by (cases kv)
  show ?case
  proof (cases v)
    case (Leaf s)
    with Cons.prems kv have "rh_loop kvs path (om_set vs k v) ts rs = Inr (vs', ts', rs')"
      by simp
    from Cons.IH [OF this] show ?thesis
      using kv Leaf by (simp add: om_keys_om_set)
  next
    case (Arr xs)
    with Cons.prems kv have "rh_loop kvs path (om_set vs k v) ts rs = Inr (vs', ts', rs')"
      by simp
    from Cons.IH [OF this] show ?thesis
      using kv Arr by (simp add: om_keys_om_set)
  next
    case (Obj m)
    show ?thesis
    proof (cases "is_hash_key k")
      case True
      with Cons.prems kv Obj obtain r where
        "rh_loop kvs path vs ts (rs @ [r]) = Inr (vs', ts', rs')"
        by (auto split: if_splits sum.splits)
      from Cons.IH [OF this] show ?thesis
        using kv Obj True by simp
    next
      case False
      with Cons.prems kv Obj obtain r where
        "rh_loop kvs path vs (om_set ts k r) rs = Inr (vs', ts', rs')"
        by (auto split: if_splits sum.splits)
      from Cons.IH [OF this] show ?thesis
        using kv Obj False by (simp add: om_keys_om_set)
    qed
  qed
qed


lemma conflicts_unfold:
  "conflicts tree path = sub_conflicts tree path
     @ (if list_ex tagged tree
        then map (\<lambda>kv. (path, fst kv)) (filter (\<lambda>kv. \<not> tagged kv) tree) else [])"
  by (simp add: conflicts.simps [of tree path] sub_conflicts_def)

lemma sub_conflicts_simps [simp]:
  "sub_conflicts [] path = []"
  "sub_conflicts ((k, v) # rest) path =
     (case v of Obj m \<Rightarrow> conflicts m (child_path path k) | _ \<Rightarrow> []) @ sub_conflicts rest path"
  by (simp_all add: sub_conflicts_def)

lemma no_empty_map_key_simps [simp]:
  "no_empty_map_key [] = True"
  "no_empty_map_key ((k, v) # rest) =
     ((case v of Obj m \<Rightarrow> k \<noteq> [] \<and> no_empty_map_key m | _ \<Rightarrow> True) \<and> no_empty_map_key rest)"
  by (simp_all add: no_empty_map_key.simps [of "[]"] no_empty_map_key.simps [of "(k, v) # rest"]
        no_empty_map_key.simps [of rest])

lemma rh_finish_Inl:
  assumes "rh_finish path vs ts rs = Inl e"
  shows "rs \<noteq> [] \<and> (\<exists>k \<in> set (om_keys vs) \<union> set (om_keys ts). e = ShapeConflict path k)"
proof -
  from assms have rs: "rs \<noteq> []" and h: "om_keys vs @ om_keys ts \<noteq> []"
    and e: "e = ShapeConflict path (hd (om_keys vs @ om_keys ts))"
    by (auto simp: rh_finish_def Let_def split: if_splits)
  from h have "hd (om_keys vs @ om_keys ts) \<in> set (om_keys vs @ om_keys ts)"
    by (rule hd_in_set)
  with rs e show ?thesis by auto
qed

lemma rh_finish_Inr:
  assumes "rh_finish path vs ts rs = Inr r"
  shows "rs = [] \<or> (om_keys vs = [] \<and> om_keys ts = [] \<and> r = Arr rs)"
  using assms by (auto simp: rh_finish_def Let_def split: if_splits)

lemma rh_errors:
  "no_empty_map_key tree \<Longrightarrow> removeHashes tree path = Inl e \<Longrightarrow>
     e \<in> (\<lambda>(p, k). ShapeConflict p k) ` set (conflicts tree path)"
  "no_empty_map_key kvs \<Longrightarrow> rh_loop kvs path vs ts rs = Inl e \<Longrightarrow>
     e \<in> (\<lambda>(p, k). ShapeConflict p k) ` set (sub_conflicts kvs path)"
proof (induction tree path and kvs path vs ts rs rule: removeHashes_rh_loop.induct)
  case (1 tree path)
  show ?case
  proof (cases "rh_loop tree path [] [] []")
    case (Inl e')
    with "1.prems" have "e' = e" by (simp add: removeHashes.simps)
    with Inl "1.IH" "1.prems" show ?thesis
      by (auto simp: conflicts_unfold [of tree path])
  next
    case (Inr x)
    obtain vs' ts' rs' where x: "x = (vs', ts', rs')" by (cases x)
    from "1.prems" Inr x have fin: "rh_finish path vs' ts' rs' = Inl e"
      by (simp add: removeHashes.simps)
    from rh_loop_keys [OF Inr [unfolded x]]
    have keys: "set (om_keys vs') \<union> set (om_keys ts') = fst ` set (filter (\<lambda>kv. \<not> tagged kv) tree)"
      and res: "rs' \<noteq> [] \<longleftrightarrow> list_ex tagged tree"
      by (simp_all add: om_keys_def)
    from rh_finish_Inl [OF fin] keys res obtain kv where
      "list_ex tagged tree" "kv \<in> set tree" "\<not> tagged kv" "e = ShapeConflict path (fst kv)"
      by auto
    then show ?thesis
      by (force simp: conflicts_unfold [of tree path])
  qed
next
  case (2 path vs ts rs)
  then show ?case by simp
next
  case (3 key "value" rest path vs ts rs)
  show ?case
  proof (cases "value")
    case (Leaf s)
    with 3 show ?thesis by simp
  next
    case (Arr xs)
    with 3 show ?thesis by simp
  next
    case (Obj m)
    with "3.prems" have key: "key \<noteq> []" and okm: "no_empty_map_key m" and okr: "no_empty_map_key rest"
      by simp_all
    show ?thesis
    proof (cases "is_hash_key key")
      case True
      show ?thesis
      proof (cases "removeHashes m (path @ ''[]'')")
        case (Inl e')
        with "3.prems" Obj key True have "e' = e" by simp
        with "3.IH"(2) [OF Obj key True okm] Inl Obj True show ?thesis
          by (auto simp: child_path_def)
      next
        case (Inr r)
        with "3.prems" Obj key True have "rh_loop rest path vs ts (rs @ [r]) = Inl e" by simp
        from "3.IH"(3) [OF Obj key True Inr okr this] Obj show ?thesis by auto
      qed
    next
      case False
      show ?thesis
      proof (cases "removeHashes m (path @ ''.'' @ key)")
        case (Inl e')
        with "3.prems" Obj key False have "e' = e" by simp
        with "3.IH"(4) [OF Obj key False okm] Inl Obj False show ?thesis
          by (auto simp: child_path_def)
      next
        case (Inr r)
        with "3.prems" Obj key False have "rh_loop rest path vs (om_set ts key r) rs = Inl e" by simp
        from "3.IH"(5) [OF Obj key False Inr okr this] Obj show ?thesis by auto
      qed
    qed
  qed
qed


lemma rh_success:
  "removeHashes tree path = Inr r \<Longrightarrow> conflicts tree path = []"
  "rh_loop kvs path vs ts rs = Inr x \<Longrightarrow> sub_conflicts kvs path = []"
proof (induction tree path and kvs path vs ts rs arbitrary: r and x rule: removeHashes_rh_loop.induct)
  case (1 tree path)
  from "1.prems" obtain vs' ts' rs' where
    loop: "rh_loop tree path [] [] [] = Inr (vs', ts', rs')"
    and fin: "rh_finish path vs' ts' rs' = Inr r"
    by (auto simp: removeHashes.simps split: sum.splits)
  from "1.IH" [OF loop] have sub: "sub_conflicts tree path = []" .
  from rh_loop_keys [OF loop]
  have keys: "set (om_keys vs') \<union> set (om_keys ts') = fst ` set (filter (\<lambda>kv. \<not> tagged kv) tree)"
    and res: "rs' \<noteq> [] \<longleftrightarrow> list_ex tagged tree"
    by (simp_all add: om_keys_def)
  from rh_finish_Inr [OF fin] keys res
  have "\<not> list_ex tagged tree \<or> filter (\<lambda>kv. \<not> tagged kv) tree = []"
    by (auto simp: filter_empty_conv)
  with sub show ?case
    by (auto simp: conflicts_unfold [of tree path])
next
  case (2 path vs ts rs)
  then show ?case by simp
next
  case (3 key "value" rest path vs ts rs)
  show ?case
  proof (cases "value")
    case (Leaf s)
    with 3 show ?thesis by simp
  next
    case (Arr xs)
    with 3 show ?thesis by simp
  next
    case (Obj m)
    with "3.prems" have key: "key \<noteq> []"
      by (auto split: if_splits)
    show ?thesis
    proof (cases "is_hash_key key")
      case True
      with "3.prems" Obj key obtain r' where
        r': "removeHashes m (path @ ''[]'') = Inr r'"
        and loop: "rh_loop rest path vs ts (rs @ [r']) = Inr x"
        by (auto split: sum.splits)
      from "3.IH"(2) [OF Obj key True r'] "3.IH"(3) [OF Obj key True r' loop] Obj True
      show ?thesis by (simp add: child_path_def)
    next
      case False
      with "3.prems" Obj key obtain r' where
        r': "removeHashes m (path @ ''.'' @ key) = Inr r'"
        and loop: "rh_loop rest path vs (om_set ts key r') rs = Inr x"
        by (auto split: sum.splits)
      from "3.IH"(4) [OF Obj key False r'] "3.IH"(5) [OF Obj key False r' loop] Obj False
      show ?thesis by (simp add: child_path_def)
    qed
  qed
qed

lemma rh_loop_results:
  "rh_loop kvs path vs ts rs = Inr (vs', ts', rs') \<Longrightarrow>
     map Inr rs' = map Inr rs
        @ map (\<lambda>kv. removeHashes (entries (snd kv)) (path @ ''[]'')) (filter tagged kvs)"
proof (induction kvs arbitrary: vs ts rs)
  case Nil
  then show ?case by simp
next
  case (Cons kv kvs)
  obtain k v where kv: "kv = (k, v)" by (cases kv)
  show ?case
  proof (cases v)
    case (Leaf s)
    with Cons kv show ?thesis by simp
  next
    case (Arr xs)
    with Cons kv show ?thesis by simp
  next
    case (Obj m)
    show ?thesis
    proof (cases "is_hash_key k")
      case True
      with Cons.prems kv Obj obtain r where r: "removeHashes m (path @ ''[]'') = Inr r"
        and "rh_loop kvs path vs ts (rs @ [r]) = Inr (vs', ts', rs')"
        by (auto split: if_splits sum.splits)
      from Cons.IH [OF this(2)] r show ?thesis
        using kv Obj True by simp
    next
      case False
      with Cons.prems kv Obj obtain r where
        "rh_loop kvs path vs (om_set ts k r) rs = Inr (vs', ts', rs')"
        by (auto split: if_splits sum.splits)
      from Cons.IH [OF this] show ?thesis
        using kv Obj False by simp
    qed
  qed
qed

text \<open>
  On a tree in which no nested map sits under the empty key: the resolver fails with a
  shape conflict exactly when some node has a tagged child next to a leaf or a plain
  nested child, the error names such a node and one of those children, and otherwise
  the resolver succeeds and a node with tagged children becomes the sequence of their
  resolved values.
\<close>

lemma removeHashes_conflict_iff:
  assumes ok: "no_empty_map_key tree"
  shows "((\<exists>p k. removeHashes tree path = Inl (ShapeConflict p k)) \<longleftrightarrow> conflicts tree path \<noteq> [])
       \<and> (\<forall>e. removeHashes tree path = Inl e \<longrightarrow>
              (\<exists>(p, k) \<in> set (conflicts tree path). e = ShapeConflict p k))
       \<and> (conflicts tree path = [] \<longrightarrow>
            (\<exists>r. removeHashes tree path = Inr r \<and>
               (list_ex tagged tree \<longrightarrow>
                  (\<exists>rs. r = Arr rs \<and> map Inr rs =
                     map (\<lambda>kv. removeHashes (entries (snd kv)) (path @ ''[]''))
                         (filter tagged tree)))))"
proof (intro conjI allI impI)
  show "(\<exists>p k. removeHashes tree path = Inl (ShapeConflict p k)) \<longleftrightarrow> conflicts tree path \<noteq> []"
  proof
    assume "\<exists>p k. removeHashes tree path = Inl (ShapeConflict p k)"
    then obtain e where "removeHashes tree path = Inl e" by blast
    from rh_errors(1) [OF ok this] show "conflicts tree path \<noteq> []" by auto
  next
    assume c: "conflicts tree path \<noteq> []"
    show "\<exists>p k. removeHashes tree path = Inl (ShapeConflict p k)"
    proof (cases "removeHashes tree path")
      case (Inl e)
      from rh_errors(1) [OF ok this] Inl show ?thesis by auto
    next
      case (Inr r)
      from rh_success(1) [OF this] c show ?thesis by simp
    qed
  qed
next
  fix e assume "removeHashes tree path = Inl e"
  from rh_errors(1) [OF ok this]
  show "\<exists>(p, k) \<in> set (conflicts tree path). e = ShapeConflict p k" by auto
next
  assume c: "conflicts tree path = []"
  show "\<exists>r. removeHashes tree path = Inr r \<and>
          (list_ex tagged tree \<longrightarrow>
             (\<exists>rs. r = Arr rs \<and> map Inr rs =
                map (\<lambda>kv. removeHashes (entries (snd kv)) (path @ ''[]'')) (filter tagged tree)))"
  proof (cases "removeHashes tree path")
    case (Inl e)
    from rh_errors(1) [OF ok this] c show ?thesis by simp
  next
    case (Inr r)
    then obtain vs' ts' rs' where
      loop: "rh_loop tree path [] [] [] = Inr (vs', ts', rs')"
      and fin: "rh_finish path vs' ts' rs' = Inr r"
      by (auto simp: removeHashes.simps split: sum.splits)
    from rh_loop_keys [OF loop] have res: "rs' \<noteq> [] \<longleftrightarrow> list_ex tagged tree" by simp
    from rh_loop_results [OF loop]
    have rs': "map Inr rs' = map (\<lambda>kv. removeHashes (entries (snd kv)) (path @ ''[]'')) (filter tagged tree)"
      by simp
    from rh_finish_Inr [OF fin] res rs' Inr show ?thesis by auto
  qed
qed

declare maps_last.simps [simp del] plain_tree.simps [simp del] maps_are_last.simps [simp del]

lemma fst_relabel [simp]: "fst (relabel kv) = fst kv"
  by (cases kv) (simp add: relabel_def split: node.splits)

lemma maps_last_unfold:
  "maps_last kvs = filter (\<lambda>kv. \<not> is_obj (snd kv)) kvs
                      @ map relabel (filter (\<lambda>kv. is_obj (snd kv)) kvs)"
  by (simp add: maps_last.simps [of kvs] relabel_def)

lemma is_obj_simps [simp]:
  "is_obj (Obj m) = True" "is_obj (Leaf s) = False" "is_obj (Arr xs) = False"
  by (simp_all add: is_obj_def)

lemma plain_tree_simps [simp]:
  "plain_tree [] = True"
  "plain_tree ((k, v) # rest) =
     (k \<notin> fst ` set rest \<and>
      (case v of Obj m \<Rightarrow> k \<noteq> [] \<and> \<not> is_hash_key k \<and> plain_tree m | _ \<Rightarrow> True) \<and>
      plain_tree rest)"
  by (auto simp: plain_tree.simps [of "[]"] plain_tree.simps [of "(k, v) # rest"]
        plain_tree.simps [of rest])

lemma om_set_fresh: "k \<notin> fst ` set m \<Longrightarrow> om_set m k v = m @ [(k, v)]"
  by (induction m) auto

lemma set_all_fresh: "distinct (map fst (m @ kvs)) \<Longrightarrow> set_all m kvs = m @ kvs"
proof (induction kvs arbitrary: m)
  case Nil
  then show ?case by (simp add: set_all_def)
next
  case (Cons kv kvs)
  obtain k v where kv: "kv = (k, v)" by (cases kv)
  from Cons.prems kv have fresh: "k \<notin> fst ` set m" by auto
  from Cons.prems kv have "distinct (map fst ((m @ [(k, v)]) @ kvs))" by auto
  from Cons.IH [OF this] have "set_all (m @ [(k, v)]) kvs = (m @ [(k, v)]) @ kvs" .
  with fresh kv show ?case
    by (simp add: set_all_def om_set_fresh)
qed

lemma plain_tree_distinct: "plain_tree tree \<Longrightarrow> distinct (map fst tree)"
  by (simp add: plain_tree.simps [of tree])

lemma distinct_partition_keys:
  "distinct (map fst kvs) \<Longrightarrow>
     distinct (map fst (filter (\<lambda>kv. \<not> P kv) kvs @ map relabel (filter P kvs)))"
  by (induction kvs) (auto simp: comp_def)

lemma rh_plain:
  "plain_tree tree \<Longrightarrow> removeHashes tree path = Inr (Obj (maps_last tree))"
  "plain_tree kvs \<Longrightarrow> fst ` set kvs \<inter> (fst ` set vs \<union> fst ` set ts) = {} \<Longrightarrow>
     rh_loop kvs path vs ts rs =
       Inr (vs @ filter (\<lambda>kv. \<not> is_obj (snd kv)) kvs,
            ts @ map relabel (filter (\<lambda>kv. is_obj (snd kv)) kvs), rs)"
proof (induction tree path and kvs path vs ts rs rule: removeHashes_rh_loop.induct)
  case (1 tree path)
  from "1.IH" [OF "1.prems"]
  have loop: "rh_loop tree path [] [] [] =
      Inr (filter (\<lambda>kv. \<not> is_obj (snd kv)) tree, map relabel (filter (\<lambda>kv. is_obj (snd kv)) tree), [])"
    by simp
  let ?L = "filter (\<lambda>kv. \<not> is_obj (snd kv)) tree"
  let ?N = "map relabel (filter (\<lambda>kv. is_obj (snd kv)) tree)"
  from plain_tree_distinct [OF "1.prems"] have d: "distinct (map fst (?L @ ?N))"
    by (rule distinct_partition_keys)
  then have "distinct (map fst ([] @ ?L))" by simp
  then have L: "set_all [] ?L = ?L" by (simp only: set_all_fresh append_Nil)
  from d have "set_all ?L ?N = ?L @ ?N" by (rule set_all_fresh)
  with L loop show ?case
    by (simp add: removeHashes.simps rh_finish_def maps_last_unfold [of tree])
next
  case (2 path vs ts rs)
  then show ?case by simp
next
  case (3 key "value" rest path vs ts rs)
  from "3.prems" have fresh: "key \<notin> fst ` set vs" "key \<notin> fst ` set ts" "key \<notin> fst ` set rest"
    and rest: "plain_tree rest"
    and disj: "fst ` set rest \<inter> (fst ` set vs \<union> fst ` set ts) = {}"
    by auto
  show ?case
  proof (cases "value")
    case (Leaf s)
    from fresh disj have "fst ` set rest \<inter> (fst ` set (vs @ [(key, value)]) \<union> fst ` set ts) = {}"
      by auto
    from "3.IH"(1) [OF Leaf rest, unfolded om_set_fresh [OF fresh(1)], OF this] Leaf fresh
    show ?thesis by (simp add: om_set_fresh)
  next
    case (Arr xs)
    from fresh disj have "fst ` set rest \<inter> (fst ` set (vs @ [(key, value)]) \<union> fst ` set ts) = {}"
      by auto
    from "3.IH"(6) [OF Arr rest, unfolded om_set_fresh [OF fresh(1)], OF this] Arr fresh
    show ?thesis by (simp add: om_set_fresh)
  next
    case (Obj m)
    with "3.prems" have key: "key \<noteq> []" and nh: "\<not> is_hash_key key" and pm: "plain_tree m"
      by simp_all
    from "3.IH"(4) [OF Obj key nh pm]
    have r: "removeHashes m (path @ ''.'' @ key) = Inr (Obj (maps_last m))" .
    from fresh disj
    have "fst ` set rest \<inter> (fst ` set vs \<union> fst ` set (ts @ [(key, Obj (maps_last m))])) = {}"
      by auto
    from "3.IH"(5) [OF Obj key nh r rest, unfolded om_set_fresh [OF fresh(2)], OF this] Obj key nh r fresh
    show ?thesis by (simp add: om_set_fresh relabel_def)
  qed
qed


lemma is_obj_relabel [simp]: "is_obj (snd (relabel kv)) = is_obj (snd kv)"
  by (cases kv) (simp add: relabel_def split: node.splits)

lemma maps_last_idem: "maps_last (maps_last tree) = maps_last tree"
proof (induction tree rule: maps_last.induct)
  case (1 kvs)
  have "map relabel (map relabel (filter (\<lambda>kv. is_obj (snd kv)) kvs))
      = map relabel (filter (\<lambda>kv. is_obj (snd kv)) kvs)"
  proof (rule map_idI)
    fix x assume "x \<in> set (map relabel (filter (\<lambda>kv. is_obj (snd kv)) kvs))"
    then obtain k v where kv: "(k, v) \<in> set (filter (\<lambda>kv. is_obj (snd kv)) kvs)" and x: "x = relabel (k, v)"
      by auto
    from kv obtain m where v: "v = Obj m" by (cases v) auto
    from "1.IH" [OF kv refl v] x v show "relabel x = x"
      by (simp add: relabel_def)
  qed
  then show ?case
    by (simp add: maps_last_unfold [of kvs] maps_last_unfold [of "_ @ _"] filter_map comp_def)
qed


lemma plain_tree_maps_last: "plain_tree tree \<Longrightarrow> plain_tree (maps_last tree)"
proof (induction tree rule: maps_last.induct)
  case (1 kvs)
  let ?L = "filter (\<lambda>kv. \<not> is_obj (snd kv)) kvs"
  let ?N = "map relabel (filter (\<lambda>kv. is_obj (snd kv)) kvs)"
  from plain_tree_distinct [OF "1.prems"] have d: "distinct (map fst (?L @ ?N))"
    by (rule distinct_partition_keys)
  have "case v of Obj m \<Rightarrow> k \<noteq> [] \<and> \<not> is_hash_key k \<and> plain_tree m | _ \<Rightarrow> True"
    if "(k, v) \<in> set (?L @ ?N)" for k v
  proof (cases "(k, v) \<in> set ?L")
    case True
    then show ?thesis by (cases v) auto
  next
    case False
    with that obtain k' v' where kv': "(k', v') \<in> set (filter (\<lambda>kv. is_obj (snd kv)) kvs)"
      and eq: "(k, v) = relabel (k', v')" by auto
    from kv' obtain m where v': "v' = Obj m" by (cases v') auto
    from kv' v' "1.prems" have "k' \<noteq> []" "\<not> is_hash_key k'" "plain_tree m"
      by (auto simp: plain_tree.simps [of kvs])
    with "1.IH" [OF kv' refl v'] eq v' show ?thesis
      by (simp add: relabel_def)
  qed
  with d show ?case
    unfolding maps_last_unfold [of kvs] plain_tree.simps [of "?L @ ?N"] by blast
qed

lemma maps_last_id: "maps_are_last tree \<Longrightarrow> maps_last tree = tree"
proof (induction tree rule: maps_last.induct)
  case (1 kvs)
  let ?N = "filter (\<lambda>kv. is_obj (snd kv)) kvs"
  from "1.prems" have split: "kvs = filter (\<lambda>kv. \<not> is_obj (snd kv)) kvs @ ?N"
    and sub: "\<forall>(k, v) \<in> set kvs. case v of Obj m \<Rightarrow> maps_are_last m | _ \<Rightarrow> True"
    by (simp_all add: maps_are_last.simps [of kvs])
  have "map relabel ?N = ?N"
  proof (rule map_idI)
    fix x assume x: "x \<in> set ?N"
    obtain k v where kv: "x = (k, v)" by (cases x)
    with x obtain m where v: "v = Obj m" by (cases v) auto
    from x kv v sub have "maps_are_last m" by auto
    from "1.IH" [OF x [unfolded kv] refl v this] kv v show "relabel x = x"
      by (simp add: relabel_def)
  qed
  with split show ?case
    by (simp add: maps_last_unfold [of kvs])
qed

text \<open>
  Claim C1, at the input where the code departs from it. The tree
  \<^verbatim>\<open>{"a": {"": {"b": 1}}}\<close>, which merging the column \<^verbatim>\<open>$.a..b\<close> produces, has
  no node with a tagged child, so resolution should succeed; the resolver panics on the
  slice \<^verbatim>\<open>key[:1]\<close> of the empty key.
\<close>

theorem removeHashes_panics_on_empty_key:
  "conflicts [(''a'', Obj [([], Obj [(''b'', Leaf (SInt 1))])])] ''$'' = []
   \<and> removeHashes [(''a'', Obj [([], Obj [(''b'', Leaf (SInt 1))])])] ''$''
       = Inl (Panic ''slice bounds out of range [:1] with length 0'')
   \<and> combineIntoTree [[([], [(''.a..b'', SInt 1)])]] ''.''
       = Inr (Some [(''a'', Obj [([], Obj [(''b'', Leaf (SInt 1))])])])"
  by (simp add: removeHashes.simps conflicts_unfold is_hash_key_def child_path_def
        combineIntoTree_def split_def om_get_def)


section \<open>Resolving a tree that has no tagged child\<close>

lemma maps_last_fixed: "maps_last tree = tree \<Longrightarrow> maps_are_last tree"
proof (induction tree rule: maps_last.induct)
  case (1 kvs)
  let ?L = "filter (\<lambda>kv. \<not> is_obj (snd kv)) kvs"
  let ?N = "filter (\<lambda>kv. is_obj (snd kv)) kvs"
  from "1.prems" have eq: "?L @ map relabel ?N = kvs"
    by (simp add: maps_last_unfold [of kvs])
  have "filter (\<lambda>kv. is_obj (snd kv)) (?L @ map relabel ?N) = map relabel ?N"
    by (simp add: filter_map comp_def)
  with eq have fixed: "map relabel ?N = ?N" by simp
  with eq have split: "kvs = ?L @ ?N" by simp
  from fixed have each: "\<forall>x \<in> set ?N. relabel x = x"
    using map_eq_conv [of relabel ?N id] by simp
  have "case v of Obj m \<Rightarrow> maps_are_last m | _ \<Rightarrow> True" if kv: "(k, v) \<in> set kvs" for k v
  proof (cases v)
    case (Obj m)
    with kv have mem: "(k, v) \<in> set ?N" by (simp add: is_obj_def)
    with each have "relabel (k, v) = (k, v)" by blast
    with Obj have "maps_last m = m" by (simp add: relabel_def)
    from "1.IH" [OF mem refl Obj this] Obj show ?thesis by simp
  qed simp_all
  with split show ?case
    unfolding maps_are_last.simps [of kvs] by blast
qed

text \<open>
  Resolving twice. The merged post resolves to a tree whose sequence of comments stands
  after the nested map of the author, where the loop over the nested maps put it. That
  tree has no marker and no token left, and resolving it once more moves the sequence
  before the author: the resolver does not leave its own output as it is. The third tree
  is left as it is.
\<close>

lemma removeHashes_twice_moves_sequence:
  "removeHashes post_merged ''$'' = Inr (Obj post_resolved)
   \<and> marker_free post_resolved
   \<and> removeHashes post_resolved ''$'' = Inr (Obj post_resolved_again)
   \<and> post_resolved_again \<noteq> post_resolved
   \<and> removeHashes post_resolved_again ''$'' = Inr (Obj post_resolved_again)"
  by (simp add: post_merged_def post_resolved_def post_resolved_again_def removeHashes.simps
        is_hash_key_def rh_finish_def set_all_def om_keys_def)

text \<open>
  Claim C7, as amended. On a tree with no nested map under a fingerprint token or under
  the empty key, resolving succeeds and returns the tree with, at every node reached
  through maps, the nested maps moved behind the children that are not maps: the scalar
  leaves and the sequences, a sequence being kept as it is and not entered. It returns
  the input itself exactly when the nested maps already come last at every such node,
  that is, when no scalar leaf and no sequence follows a nested map. Resolving the
  result again changes nothing.
\<close>

theorem removeHashes_plain_tree:
  assumes "plain_tree tree"
  shows "removeHashes tree path = Inr (Obj (maps_last tree))
       \<and> (removeHashes tree path = Inr (Obj tree) \<longleftrightarrow> maps_are_last tree)
       \<and> removeHashes (maps_last tree) path' = Inr (Obj (maps_last tree))"
  using rh_plain(1) [OF assms, of path]
    rh_plain(1) [OF plain_tree_maps_last [OF assms], of path']
    maps_last_fixed [of tree] maps_last_id [of tree]
  by (auto simp: maps_last_idem)


text \<open>
  The tree \<^verbatim>\<open>{"a": {"b": 1}, "c": 2}\<close> has no marker and no fingerprint token, and
  resolving it returns \<^verbatim>\<open>{"c": 2, "a": {"b": 1}}\<close>: another order of keys.
\<close>

theorem removeHashes_reorders_counterexample:
  "marker_free [(''a'', Obj [(''b'', Leaf (SInt 1))]), (''c'', Leaf (SInt 2))]
   \<and> removeHashes [(''a'', Obj [(''b'', Leaf (SInt 1))]), (''c'', Leaf (SInt 2))] ''$''
       = Inr (Obj [(''c'', Leaf (SInt 2)), (''a'', Obj [(''b'', Leaf (SInt 1))])])
   \<and> removeHashes [(''a'', Obj [(''b'', Leaf (SInt 1))]), (''c'', Leaf (SInt 2))] ''$''
       \<noteq> Inr (Obj [(''a'', Obj [(''b'', Leaf (SInt 1))]), (''c'', Leaf (SInt 2))])"
  by (simp add: removeHashes.simps is_hash_key_def rh_finish_def set_all_def om_keys_def)

theorem removeHashes_plain_tree_witness:
  "plain_tree post_resolved
   \<and> \<not> maps_are_last post_resolved
   \<and> removeHashes post_resolved ''$'' = Inr (Obj post_resolved_again)
   \<and> removeHashes post_resolved ''$'' \<noteq> Inr (Obj post_resolved)
   \<and> plain_tree post_resolved_again
   \<and> maps_are_last post_resolved_again
   \<and> removeHashes post_resolved_again ''$'' = Inr (Obj post_resolved_again)"
proof -
  have p: "plain_tree post_resolved"
    by (simp add: post_resolved_def is_hash_key_def)
  have q: "plain_tree post_resolved_again"
    by (simp add: post_resolved_again_def is_hash_key_def)
  have l: "maps_last post_resolved = post_resolved_again"
    by (simp add: post_resolved_def post_resolved_again_def maps_last_unfold relabel_def)
  have n: "post_resolved_again \<noteq> post_resolved"
    by (simp add: post_resolved_def post_resolved_again_def)
  from removeHashes_plain_tree [OF p, of "''$''" "''$''"] l n
  have one: "removeHashes post_resolved ''$'' = Inr (Obj post_resolved_again)"
    and two: "\<not> maps_are_last post_resolved"
    and three: "removeHashes post_resolved_again ''$'' = Inr (Obj post_resolved_again)"
    by auto
  from removeHashes_plain_tree [OF q, of "''$''" "''$''"] three
  have four: "maps_are_last post_resolved_again" by blast
  from p q one two three four n show ?thesis by simp
qed



section \<open>Properties of getPaths\<close>

lemma last_dot_decomp:
  assumes "CHR ''.'' \<notin> set b"
  shows "last_index_dot (a @ CHR ''.'' # b) = Some (length a)"
    and "before_last_dot (a @ CHR ''.'' # b) = a"
    and "after_last_dot (a @ CHR ''.'' # b) = b"
proof -
  have tw: "takeWhile (\<lambda>x. x \<noteq> CHR ''.'') (rev b @ CHR ''.'' # rev a) = rev b"
    using assms by (simp add: takeWhile_append)
  have dw: "dropWhile (\<lambda>x. x \<noteq> CHR ''.'') (rev b @ CHR ''.'' # rev a) = CHR ''.'' # rev a"
    using assms by (simp add: dropWhile_append)
  show "last_index_dot (a @ CHR ''.'' # b) = Some (length a)"
    using tw by (simp add: last_index_dot_def)
  show "before_last_dot (a @ CHR ''.'' # b) = a"
    using dw by (simp add: before_last_dot_def)
  show "after_last_dot (a @ CHR ''.'' # b) = b"
    using tw by (simp add: after_last_dot_def)
qed

lemma column_path_spec:
  "column_path path c =
     (if dollar_dotted c then (before_last_dot c, after_last_dot c) else (path, c))"
proof (cases "CHR ''.'' \<in> set c")
  case True
  then obtain a b where c: "c = a @ CHR ''.'' # b" and b: "CHR ''.'' \<notin> set b"
    by (auto dest: split_list_last)
  from last_dot_decomp [OF b, of a] c show ?thesis
    by (simp add: column_path_def dollar_dotted_def)
next
  case False
  then show ?thesis
    by (simp add: column_path_def dollar_dotted_def last_index_dot_def)
qed

lemma prefix_in_force_0:
  "prefix_in_force d (c # cs) 0 = (if dollar_dotted c then before_last_dot c else d)"
  by (simp add: prefix_in_force_def)

lemma prefix_in_force_Suc:
  "prefix_in_force d (c # cs) (Suc i)
     = prefix_in_force (if dollar_dotted c then before_last_dot c else d) cs i"
  by (cases "filter dollar_dotted (take (Suc i) cs)") (simp_all add: prefix_in_force_def)

lemma getPaths_loop_spec:
  "getPaths_loop path columns =
     map (\<lambda>i. prefix_in_force path columns i @ ''.'' @ property_name (columns ! i))
       [0..<length columns]"
proof (induction columns arbitrary: path)
  case Nil
  show ?case by simp
next
  case (Cons c cs)
  have upt: "[0..<length (c # cs)] = 0 # map Suc [0..<length cs]"
    by (simp add: upt_conv_Cons map_Suc_upt del: upt_Suc)
  show ?case
    unfolding upt
    by (simp add: column_path_spec Cons.IH prefix_in_force_0 prefix_in_force_Suc property_name_def
          comp_def del: upt_Suc)
qed

lemma getPaths_v1_loop_spec:
  "[] \<notin> set columns \<Longrightarrow> getPaths_v1_loop path columns = Inr (getPaths_loop path columns)"
  by (induction columns arbitrary: path) (auto split: prod.splits)

text \<open>
  Claim C9. The path prefix is carried from column to column: a column that starts with
  \<^verbatim>\<open>$\<close> and contains a dot is filed under what stands before its last dot, every
  other column under the prefix of the most recent such column before it, or under
  \<^verbatim>\<open>$[]\<close> when there is none; so \<^verbatim>\<open>comments\<close> after \<^verbatim>\<open>$.stats.posts\<close> is
  placed at \<^verbatim>\<open>$.stats.comments\<close>. The earlier version of pathsqlx.go does the same
  on column names that are not empty.
\<close>

theorem getPaths_prefix_is_stateful:
  "getPaths columns = Inr (spec_paths columns)
   \<and> ([] \<notin> set columns \<longrightarrow> getPaths_v1 columns = Inr (spec_paths columns))
   \<and> getPaths [''$.stats.posts'', ''comments''] = Inr [''$.stats.posts'', ''$.stats.comments'']"
proof (intro conjI impI)
  show "getPaths columns = Inr (spec_paths columns)"
    by (simp add: getPaths_def spec_paths_def getPaths_loop_spec)
  show "getPaths_v1 columns = Inr (spec_paths columns)" if "[] \<notin> set columns"
    using that by (simp add: getPaths_v1_def spec_paths_def getPaths_v1_loop_spec getPaths_loop_spec)
  show "getPaths [''$.stats.posts'', ''comments''] = Inr [''$.stats.posts'', ''$.stats.comments'']"
    by (simp add: getPaths_def column_path_def last_index_dot_def)
qed

theorem getPaths_prefix_is_stateful_witness:
  "[] \<notin> set [''$.stats.posts'', ''comments'']
   \<and> getPaths_v1 [''$.stats.posts'', ''comments''] = Inr [''$.stats.posts'', ''$.stats.comments'']
   \<and> spec_paths [''id'', ''$.stats.posts'', ''comments'', ''$x'']
       = [''$[].id'', ''$.stats.posts'', ''$.stats.comments'', ''$.stats.$x'']
   \<and> getPaths [''id'', ''$.stats.posts'', ''comments'', ''$x'']
       = Inr [''$[].id'', ''$.stats.posts'', ''$.stats.comments'', ''$.stats.$x'']"
proof -
  have a: "[] \<notin> set [''$.stats.posts'', ''comments'']" by simp
  have b: "spec_paths [''$.stats.posts'', ''comments''] = [''$.stats.posts'', ''$.stats.comments'']"
    by (simp add: spec_paths_def prefix_in_force_def dollar_dotted_def before_last_dot_def
          after_last_dot_def property_name_def upt_conv_Cons)
  have c: "spec_paths [''id'', ''$.stats.posts'', ''comments'', ''$x'']
       = [''$[].id'', ''$.stats.posts'', ''$.stats.comments'', ''$.stats.$x'']"
    by (simp add: spec_paths_def prefix_in_force_def dollar_dotted_def before_last_dot_def
          after_last_dot_def property_name_def upt_conv_Cons)
  from getPaths_prefix_is_stateful [of "[''$.stats.posts'', ''comments'']"]
    getPaths_prefix_is_stateful [of "[''id'', ''$.stats.posts'', ''comments'', ''$x'']"] a b c
  show ?thesis by simp
qed


section \<open>Properties of isOneToManyJoin\<close>

lemma find_append_case:
  "find P (xs @ ys) = (case find P xs of Some x \<Rightarrow> Some x | None \<Rightarrow> find P ys)"
  by (induction xs) auto

lemma fk_loop_find:
  "fk_loop join jc allFKs =
     map_option (\<lambda>p. fk_right_to_left join (fst p) (snd p)) (find (decisive join) (map (Pair jc) allFKs))"
  by (induction allFKs) (auto simp: decisive_def)

lemma jc_loop_find:
  "jc_loop join jcs allFKs =
     map_option (\<lambda>p. fk_right_to_left join (fst p) (snd p))
       (find (decisive join) (concat (map (\<lambda>jc. map (Pair jc) allFKs) jcs)))"
  by (induction jcs) (auto simp: fk_loop_find find_append_case split: option.splits)

lemma fk_loop_cases:
  "fk_loop join jc allFKs = Some True \<Longrightarrow> list_ex (fk_right_to_left join jc) allFKs"
  "fk_loop join jc allFKs = Some False \<Longrightarrow> list_ex (fk_left_to_right join jc) allFKs"
  "fk_loop join jc allFKs = None \<Longrightarrow>
     \<not> list_ex (fk_right_to_left join jc) allFKs \<and> \<not> list_ex (fk_left_to_right join jc) allFKs"
  by (induction allFKs) (auto split: if_splits)

lemma jc_loop_cases:
  "jc_loop join jcs allFKs = Some True \<Longrightarrow>
     list_ex (\<lambda>jc. list_ex (fk_right_to_left join jc) allFKs) jcs"
  "jc_loop join jcs allFKs = Some False \<Longrightarrow>
     list_ex (\<lambda>jc. list_ex (fk_left_to_right join jc) allFKs) jcs"
  "jc_loop join jcs allFKs = None \<Longrightarrow>
     \<not> list_ex (\<lambda>jc. list_ex (fk_right_to_left join jc) allFKs) jcs \<and>
     \<not> list_ex (\<lambda>jc. list_ex (fk_left_to_right join jc) allFKs) jcs"
  by (induction jcs) (auto split: option.splits dest: fk_loop_cases)

text \<open>
  Claim C3, as amended. The right alias of a join is an array or an object by the first
  pair of predicate and foreign key, predicates outside and foreign keys inside, at
  which a foreign key matches in either direction: an array when it goes from the right
  table to the left one, an object otherwise; with no such pair (in particular with no
  parsed predicate) it is an array exactly when the join kind is LEFT or LEFT OUTER.
  Whenever matches of both directions do not occur together, this is the rule of the
  specification: right-to-left first, then left-to-right, then the join kind.
\<close>

theorem isOneToManyJoin_first_match:
  "isOneToManyJoin join allFKs =
     (case find (decisive join) (visited_pairs join allFKs) of
        None \<Rightarrow> left_join join
      | Some p \<Rightarrow> fk_right_to_left join (fst p) (snd p))
   \<and> (\<not> (some_right_to_left join allFKs \<and> some_left_to_right join allFKs) \<longrightarrow>
        isOneToManyJoin join allFKs = spec_join_is_array join allFKs)"
proof
  show "isOneToManyJoin join allFKs =
     (case find (decisive join) (visited_pairs join allFKs) of
        None \<Rightarrow> left_join join
      | Some p \<Rightarrow> fk_right_to_left join (fst p) (snd p))"
    by (cases "OnColumns join")
       (simp_all add: isOneToManyJoin_def visited_pairs_def jc_loop_find split: option.splits)
next
  show "\<not> (some_right_to_left join allFKs \<and> some_left_to_right join allFKs) \<longrightarrow>
        isOneToManyJoin join allFKs = spec_join_is_array join allFKs"
  proof
    assume excl: "\<not> (some_right_to_left join allFKs \<and> some_left_to_right join allFKs)"
    show "isOneToManyJoin join allFKs = spec_join_is_array join allFKs"
    proof (cases "jc_loop join (OnColumns join) allFKs")
      case None
      from jc_loop_cases(3) [OF this] show ?thesis
        using None
        by (simp add: isOneToManyJoin_def spec_join_is_array_def some_right_to_left_def
              some_left_to_right_def)
    next
      case (Some b)
      show ?thesis
      proof (cases b)
        case True
        with Some jc_loop_cases(1) [of join "OnColumns join" allFKs]
        have "some_right_to_left join allFKs" by (simp add: some_right_to_left_def)
        with Some True show ?thesis
          by (auto simp: isOneToManyJoin_def spec_join_is_array_def)
      next
        case False
        with Some jc_loop_cases(2) [of join "OnColumns join" allFKs]
        have l: "some_left_to_right join allFKs" by (simp add: some_left_to_right_def)
        with excl have "\<not> some_right_to_left join allFKs" by simp
        with l Some False show ?thesis
          by (auto simp: isOneToManyJoin_def spec_join_is_array_def)
      qed
    qed
  qed
qed

text \<open>
  Users and profiles refer to each other, and the join names both columns. The
  specification's rule says array (profiles has a matching key to users); the loops meet
  the key from users to profiles first and answer object.
\<close>

theorem isOneToManyJoin_counterexample:
  "length (OnColumns users_profiles) > 0
   \<and> some_right_to_left users_profiles mutual_fks
   \<and> spec_join_is_array users_profiles mutual_fks
   \<and> \<not> isOneToManyJoin users_profiles mutual_fks"
  by (simp add: users_profiles_def mutual_fks_def isOneToManyJoin_def spec_join_is_array_def
        some_right_to_left_def fk_right_to_left_def fk_left_to_right_def)

theorem isOneToManyJoin_first_match_witness:
  "\<not> (some_right_to_left posts_comments comment_fks \<and> some_left_to_right posts_comments comment_fks)
   \<and> isOneToManyJoin posts_comments comment_fks
   \<and> spec_join_is_array posts_comments comment_fks"
proof -
  have excl: "\<not> (some_right_to_left posts_comments comment_fks
                \<and> some_left_to_right posts_comments comment_fks)"
    by (simp add: posts_comments_def comment_fks_def some_left_to_right_def fk_left_to_right_def)
  have spec: "spec_join_is_array posts_comments comment_fks"
    by (simp add: posts_comments_def comment_fks_def spec_join_is_array_def
          some_right_to_left_def fk_right_to_left_def)
  from isOneToManyJoin_first_match [of posts_comments comment_fks] excl
  have "isOneToManyJoin posts_comments comment_fks = spec_join_is_array posts_comments comment_fks"
    by blast
  with excl spec show ?thesis by blast
qed


section \<open>Properties of buildCardinalityMap\<close>













text \<open>
  Which alias is the root when several are no join's right side is left to the order of
  range over the map. For \<^verbatim>\<open>FROM posts, comments\<close> with the hint \<^verbatim>\<open>$.posts\<close> for
  \<^verbatim>\<open>posts\<close>, the flag of \<^verbatim>\<open>posts\<close> is object when range yields \<^verbatim>\<open>posts\<close>
  first and array when it yields \<^verbatim>\<open>comments\<close> first.
\<close>

lemma buildCardinalityMap_depends_on_table_order:
  "set (Tables posts_then_comments) = set (Tables comments_then_posts)
   \<and> Joins posts_then_comments = Joins comments_then_posts
   \<and> PathHints posts_then_comments = PathHints comments_then_posts
   \<and> map_sum id (\<lambda>r. fst r ''posts'') (buildCardinalityMap (Inr []) posts_then_comments)
       = Inr (Some False)
   \<and> map_sum id (\<lambda>r. fst r ''posts'') (buildCardinalityMap (Inr []) comments_then_posts)
       = Inr (Some True)"
  by (simp add: posts_then_comments_def comments_then_posts_def find_root_def joinedAliases_def
        has_suffix_def suffix_def buildCardinalityMap_def apply_root_hint_def
        root_cardinality_def Let_def insert_commute)


section \<open>Properties of addHashes and of the whole reconstruction\<close>

lemma insert_by_rev_len_set: "set (insert_by_rev_len k xs) = insert k (set xs)"
  by (induction xs) auto

lemma insert_by_rev_len_length: "length (insert_by_rev_len k xs) = Suc (length xs)"
  by (induction xs) auto

lemma insert_by_rev_len_sorted:
  "sorted (map length xs) \<Longrightarrow> sorted (map length (insert_by_rev_len k xs))"
  by (induction xs) (auto simp: insert_by_rev_len_set)

lemma sort_fold_invariant:
  "sorted (map length (rev acc)) \<Longrightarrow>
     set (foldl (\<lambda>sorted k. rev (insert_by_rev_len k (rev sorted))) acc keys) = set acc \<union> set keys
   \<and> length (foldl (\<lambda>sorted k. rev (insert_by_rev_len k (rev sorted))) acc keys)
       = length acc + length keys
   \<and> sorted (map length (rev (foldl (\<lambda>sorted k. rev (insert_by_rev_len k (rev sorted))) acc keys)))"
proof (induction keys arbitrary: acc)
  case Nil
  then show ?case by simp
next
  case (Cons k keys)
  from Cons.prems have "sorted (map length (rev (rev (insert_by_rev_len k (rev acc)))))"
    by (simp add: insert_by_rev_len_sorted)
  from Cons.IH [OF this] show ?case
    by (simp add: insert_by_rev_len_set insert_by_rev_len_length)
qed

lemma key_order_sorted_permutation:
  assumes "\<And>keys. set (f keys) = set keys" "\<And>keys. length (f keys) = length keys"
  shows "key_order (\<lambda>keys. sort_by_rev_len (f keys))"
  using sort_fold_invariant [of "[]"] assms
  by (simp add: key_order_def sort_by_rev_len_def rev_map)

lemma key_order_ko_stored: "key_order ko_stored"
  using key_order_sorted_permutation [of "\<lambda>keys. keys"]
  by (simp add: ko_stored_def [abs_def])

lemma key_order_ko_rotated: "key_order (ko_rotated n)"
  using key_order_sorted_permutation [of "rotate n"]
  by (simp add: ko_rotated_def [abs_def])


section \<open>Rows without joins or hints\<close>


lemma contains_append_right: "contains s sub \<Longrightarrow> contains (t @ s) sub"
  by (induction t) auto

lemma contains_Cons_iff: "contains (c # cs) sub = (prefix sub (c # cs) \<or> contains cs sub)"
  by simp




lemma replace_all_whole: "old \<noteq> [] \<Longrightarrow> replace_all old old new = new"
  by (cases old) auto












lemma om_get_simps [simp]:
  "om_get [] k = None"
  "om_get ((k', x) # m) k = (if k' = k then Some x else om_get m k)"
  by (simp_all add: om_get_def)


















section \<open>The shortcuts of PathQuery and the full pipeline\<close>


































text \<open>
  Claim C10, at the input where the code departs from it. A record has the segments
  \<^verbatim>\<open>[]\<close>, \<^verbatim>\<open>[].aa[]\<close>, \<^verbatim>\<open>[].bb[]\<close> and \<^verbatim>\<open>[].aa[].bb[].cc[]\<close>. The two
  segments of equal length reach the replacement loop in either order, since the sort
  compares lengths only, and the longest key contains both, overlapping. Two runs on the
  same two records return different trees: one files both \<^verbatim>\<open>cc\<close> rows under one
  element of \<^verbatim>\<open>bb\<close>, the other under two. The stand-in digest plays no part in it.
\<close>

theorem reconstruct_depends_on_key_order:
  "key_order ko_stored \<and> key_order (ko_rotated 2)
   \<and> reconstruct fp_hex ko_stored (Panic ''nil pointer dereference'') fanout_records
       = Inr merged_under_bb
   \<and> reconstruct fp_hex (ko_rotated 2) (Panic ''nil pointer dereference'') fanout_records
       = Inr split_under_bb
   \<and> merged_under_bb \<noteq> split_under_bb"
proof -
  have a: "reconstruct fp_hex ko_stored (Panic ''nil pointer dereference'') fanout_records
       = Inr merged_under_bb"
    by code_simp
  have b: "reconstruct fp_hex (ko_rotated 2) (Panic ''nil pointer dereference'') fanout_records
       = Inr split_under_bb"
    by code_simp
  have c: "merged_under_bb \<noteq> split_under_bb"
    by (simp add: merged_under_bb_def split_under_bb_def)
  from a b c key_order_ko_stored key_order_ko_rotated show ?thesis by blast
qed


section \<open>Properties of convertBytes\<close>

lemma scan_d_version: "scan_d ''1.2.3'' = Inr 1"
  by code_simp

lemma show_int_one: "show_int 1 = ''1''"
  by code_simp

lemma floatToken_version: "floatToken ''1.2.3'' = (''1.2'', ''.3'')"
  by code_simp

lemma skip_space_version: "skip_space ''1.2.3'' = Inr ''1.2.3''"
  by code_simp

lemma ParseInt_version: "isl (ParseInt ''1.2.3'')"
  by code_simp

text \<open>
  Claim C8, at the input where the code departs from it. \<^verbatim>\<open>ParseFloat\<close> takes the
  text \<^verbatim>\<open>1.2\<close> and refuses \<^verbatim>\<open>1.2.3\<close>. The cell \<^verbatim>\<open>1.2.3\<close> contains a dot but
  does not parse as a float with nothing left over, so it should stay text; the code
  returns the float read from the prefix \<^verbatim>\<open>1.2\<close>, since \<^verbatim>\<open>Sscanf\<close> does not mind
  what follows the token and only the integer branch compares the result with the whole
  text.
\<close>

theorem convertBytes_reads_a_prefix:
  assumes "pf ''1.2''" and "\<not> pf ''1.2.3''"
  shows "convertBytes pf ''1.2.3'' = SFloat ''1.2''
       \<and> spec_convert pf ''1.2.3'' = SText ''1.2.3''"
proof
  have "scan_f pf ''1.2.3'' = Inr ''1.2''"
    using assms(1)
    by (simp add: scan_f_def skip_space_version floatToken_version convertFloat_ok_def
          del: skip_space.simps)
  then show "convertBytes pf ''1.2.3'' = SFloat ''1.2''"
    by (simp add: convertBytes_def scan_d_version show_int_one)
  from ParseInt_version assms(2) show "spec_convert pf ''1.2.3'' = SText ''1.2.3''"
    by (cases "ParseInt ''1.2.3''") (simp_all add: spec_convert_def)
qed

theorem convertBytes_reads_a_prefix_witness:
  "plain_decimal ''1.2'' \<and> \<not> plain_decimal ''1.2.3''
   \<and> convertBytes plain_decimal ''1.2.3'' = SFloat ''1.2''
   \<and> spec_convert plain_decimal ''1.2.3'' = SText ''1.2.3''"
proof -
  have a: "plain_decimal ''1.2''" by code_simp
  have b: "\<not> plain_decimal ''1.2.3''" by code_simp
  from convertBytes_reads_a_prefix [OF a b] a b show ?thesis by simp
qed


section \<open>AnalyzeQuery: when it returns and when it does not\<close>

lemma index_of_le:
  "index_of s sub = Some i \<Longrightarrow> i \<le> length s"
  by (induction s arbitrary: i) (auto split: if_splits)

lemma cut_condition_returns:
  assumes "length (ToUpper L c) \<le> length c"
  shows "\<exists>c'. cut_condition L ws c = Inr c'"
proof (induction ws)
  case Nil
  show ?case by simp
next
  case (Cons w ws)
  show ?case
  proof (cases "index_of (ToUpper L c) w")
    case None
    with Cons show ?thesis by simp
  next
    case (Some i)
    from index_of_le [OF Some] assms have "i \<le> length c" by simp
    with Some show ?thesis by simp
  qed
qed

lemma join_match_returns:
  assumes five: "length match = 5"
      and upper: "\<forall>s. length (ToUpper L s) \<le> length s"
  shows "\<exists>analysis'. join_match L analysis match = Inr analysis'"
proof -
  from five obtain w k t a c where match: "match = [w, k, t, a, c]"
    by (auto simp: length_Suc_conv eval_nat_numeral)
  from upper have "length (ToUpper L (TrimSpace L c)) \<le> length (TrimSpace L c)" by blast
  from cut_condition_returns [OF this]
  obtain c' where "cut_condition L stopWords (TrimSpace L c) = Inr c'" by blast
  then show ?thesis
    by (simp add: match join_match_def Let_def split: prod.split)
qed

lemma join_loop_returns:
  assumes upper: "\<forall>s. length (ToUpper L s) \<le> length s"
  shows "list_all (\<lambda>match. length match = 5) matches \<Longrightarrow>
         \<exists>analysis'. join_loop L analysis matches = Inr analysis'"
proof (induction matches arbitrary: analysis)
  case Nil
  show ?case by simp
next
  case (Cons m ms)
  from Cons.prems have "length m = 5" by simp
  from join_match_returns [OF this upper]
  obtain a' where a': "join_match L analysis m = Inr a'" by blast
  from Cons.prems have "list_all (\<lambda>match. length match = 5) ms" by simp
  from Cons.IH [OF this] obtain a'' where "join_loop L a' ms = Inr a''" by blast
  with a' show ?case by simp
qed

text \<open>
  Where upper-casing never makes a text longer, as on ASCII text, the analysis returns:
  every slice of the condition is in range.
\<close>

lemma AnalyzeQuery_returns:
  assumes "join_groups L"
      and "\<forall>s. length (ToUpper L s) \<le> length s"
  shows "\<exists>analysis. AnalyzeQuery L sql = Inr analysis"
proof -
  from assms(1) have "list_all (\<lambda>match. length match = 5) (joinMatches L (removeComments L sql))"
    unfolding join_groups_def by blast
  from join_loop_returns [OF assms(2) this] show ?thesis
    by (simp add: AnalyzeQuery_def extractJoins_def Let_def)
qed

text \<open>A text in which no expression finds anything gives the empty analysis.\<close>

lemma AnalyzeQuery_nothing_recognised:
  assumes "hintMatches L sql = []"
      and "fromMatch L (removeComments L sql) = []"
      and "joinMatches L (removeComments L sql) = []"
  shows "AnalyzeQuery L sql = Inr \<lparr>Tables = [], Joins = [], PathHints = Map.empty\<rparr>"
  using assms
  by (simp add: AnalyzeQuery_def extractJoins_def extractFromClause_def extractPathHints_def
      Let_def)

lemma turned_lengths:
  "length turned_condition = 17"
  "index_of (concat (replicate 6 capital_turned_a) @ ''WHERE'') ''WHERE'' = Some 18"
  by code_simp+

lemma cut_condition_turned:
  assumes "ToUpper L turned_condition = concat (replicate 6 capital_turned_a) @ ''WHERE''"
  shows "cut_condition L stopWords turned_condition = Inl (Panic ''slice bounds out of range'')"
  using assms by (simp add: stopWords_def turned_lengths)

text \<open>
  Claim C5, at an input where the code departs from it. The claim is that structural
  analysis returns an analysis and no error for every text. The text
  \<^verbatim>\<open>SELECT * FROM a JOIN b ON\<close> followed by six letters U+0250 and \<^verbatim>\<open>WHERE\<close> has one
  join, whose condition has 17 bytes. Upper-casing replaces each two-byte letter by its
  three-byte capital, so WHERE is found at index 18 of the upper-cased copy, and the
  condition itself is then sliced up to 18: the call panics and returns nothing. The
  hypotheses say what the Go library answers on this text: no comment is removed, the
  JOIN expression matches once with these groups, trimming leaves the condition as it
  is, and upper-casing gives the six capitals and WHERE.
\<close>

theorem AnalyzeQuery_panics_on_longer_capitals:
  assumes "lineComments L turned_query = turned_query"
      and "blockComments L turned_query = turned_query"
      and "joinMatches L turned_query =
             [[''JOIN b ON '' @ turned_condition, [], ''b'', [], turned_condition]]"
      and "TrimSpace L turned_condition = turned_condition"
      and "ToUpper L turned_condition = concat (replicate 6 capital_turned_a) @ ''WHERE''"
  shows "AnalyzeQuery L turned_query = Inl (Panic ''slice bounds out of range'')"
  using assms(1-4) cut_condition_turned [OF assms(5)]
  by (simp add: AnalyzeQuery_def extractJoins_def removeComments_def join_match_def Let_def)

lemma example_library_turned:
  "upper_bytes turned_condition = concat (replicate 6 capital_turned_a) @ ''WHERE''"
  by code_simp

theorem AnalyzeQuery_panics_on_longer_capitals_witness:
  "AnalyzeQuery example_library turned_query = Inl (Panic ''slice bounds out of range'')"
  using AnalyzeQuery_panics_on_longer_capitals [of example_library]
  by (simp add: example_library_def example_library_turned)


end
